theory Spec2Isabelle
  imports
    Main
    "HOL-Library.Signed_Division"
    "HOL-Library.Log_Nat"
    "HOL-Library.Sublist"
    "HOL-Library.Multiset"
    "HOL-Library.AList"
begin

section \<open>Nostr events, filters and the relay pool\<close>

text \<open>
  The repository is TypeScript on top of \<^verbatim>\<open>nostr-tools\<close>. An exception or a rejected
  promise is a value of \<open>js_error\<close> on the left of a sum; \<^verbatim>\<open>undefined\<close> is \<open>None\<close>.
\<close>

datatype js_error =
    RangeError                  \<comment> \<open>BigInt division by zero\<close>
  | Thrown string               \<comment> \<open>a rejection raised by the relay pool or a collaborator\<close>
  | PeerDiscoveryError string
  | SpspError string
  | SpspTimeoutError string
  | InvalidEventError string
  | BootstrapError string
  | PlainError string           \<comment> \<open>\<^verbatim>\<open>new Error(msg)\<close>\<close>

text \<open>The signed event of \<^verbatim>\<open>nostr-tools\<close>; \<open>created_at\<close> is in unix seconds.\<close>

record Event =
  event_id :: string
  pubkey :: string
  created_at :: int
  kind :: int
  tags :: "string list list"
  content :: string
  sig :: string

text \<open>An event template is an event before \<^verbatim>\<open>finalizeEvent\<close> adds id, pubkey and signature.\<close>

record EventTemplate =
  t_kind :: int
  t_created_at :: int
  t_tags :: "string list list"
  t_content :: string

record Filter =
  kinds :: "int list"
  authors :: "string option list option"
  tag_p :: "string list option"
  tag_e :: "string list option"
  since :: "int option"
  limit :: "nat option"

text \<open>
  \<^verbatim>\<open>pool.querySync(relays, filter)\<close> for the relay list of the instance: the transport is
  an external collaborator, so a pool is any function from the filter to the events the
  relays hand back, or to the rejection of the promise.
\<close>

type_synonym SimplePool = "Filter \<Rightarrow> js_error + Event list"

definition ILP_PEER_INFO_KIND :: int where "ILP_PEER_INFO_KIND = 10032"
definition SPSP_INFO_KIND :: int where "SPSP_INFO_KIND = 10047"
definition SPSP_REQUEST_KIND :: int where "SPSP_REQUEST_KIND = 23194"
definition SPSP_RESPONSE_KIND :: int where "SPSP_RESPONSE_KIND = 23195"
definition FOLLOW_LIST_KIND :: int where "FOLLOW_LIST_KIND = 3"

text \<open>\<^verbatim>\<open>t[i]\<close> on a tag: \<^verbatim>\<open>undefined\<close> past the end of the array.\<close>

definition tag_at :: "string list \<Rightarrow> nat \<Rightarrow> string option" where
  "tag_at t i = (if i < length t then Some (t ! i) else None)"

text \<open>\<^verbatim>\<open>tags.find(t => t[0] === name)\<close>: the first tag with that name.\<close>

definition find_tag :: "string \<Rightarrow> string list list \<Rightarrow> string list option" where
  "find_tag name ts = find (\<lambda>t. tag_at t 0 = Some name) ts"

text \<open>
  \<^verbatim>\<open>new Set(xs)\<close>: a JavaScript set keeps each element once, in the order of first
  insertion. It is the list of first occurrences.
\<close>

definition Set_add :: "'a list \<Rightarrow> 'a \<Rightarrow> 'a list" where
  "Set_add s x = (if x \<in> set s then s else s @ [x])"

definition Set_of :: "'a list \<Rightarrow> 'a list" where
  "Set_of xs = foldl Set_add [] xs"

text \<open>
  \<^verbatim>\<open>events.reduce((a, b) => a.created_at > b.created_at ? a : b)\<close> on a non-empty
  array \<open>e # es\<close>: the accumulator starts at the first element. On equal timestamps the
  callback returns \<open>b\<close>.
\<close>

definition newer_of :: "Event \<Rightarrow> Event \<Rightarrow> Event" where
  "newer_of a b = (if created_at a > created_at b then a else b)"

definition reduce_latest :: "Event \<Rightarrow> Event list \<Rightarrow> Event" where
  "reduce_latest e es = foldl newer_of e es"

text \<open>\<^verbatim>\<open>extractFollowedPubkeys\<close> (src/events/parser.ts): the second element of every p tag.\<close>

definition extractFollowedPubkeys :: "Event \<Rightarrow> string option list" where
  "extractFollowedPubkeys event =
     (if kind event \<noteq> FOLLOW_LIST_KIND then []
      else map (\<lambda>t. tag_at t 1) (filter (\<lambda>t. tag_at t 0 = Some ''p'') (tags event)))"

section \<open>BigInt and Number\<close>

text \<open>
  A \<^verbatim>\<open>bigint\<close> is an \<open>int\<close>. BigInt division truncates toward zero (\<open>sdiv\<close>) and
  throws a RangeError on a zero divisor.
\<close>

definition bigint_div :: "int \<Rightarrow> int \<Rightarrow> js_error + int" where
  "bigint_div a b = (if b = 0 then Inl RangeError else Inr (a sdiv b))"

text \<open>
  \<^verbatim>\<open>Number(x)\<close> of a bigint: the nearest double, ties to even, infinite from \<open>2 ^ 1024\<close>
  on. Every integer below \<open>2 ^ 53\<close> in magnitude is kept.
\<close>

datatype js_number = Finite int | PosInfinity | NegInfinity

definition Number_of_bigint :: "int \<Rightarrow> js_number" where
  "Number_of_bigint x =
     (let a = \<bar>x\<bar> in
      if a < 2 ^ 53 then Finite x
      else
        (let e = nat (bitlen a - 53);
             q = a div 2 ^ e;
             r = a mod 2 ^ e;
             half = 2 ^ (e - 1);
             q' = (if r > half \<or> (r = half \<and> odd q) then q + 1 else q);
             m = q' * 2 ^ e
         in if m \<ge> 2 ^ 1024 then (if x < 0 then NegInfinity else PosInfinity)
            else Finite (sgn x * m)))"

section \<open>SocialTrustManager (src/trust/social-trust-manager.ts)\<close>

record TrustConfig =
  baseCreditForFollowed :: int
  mutualFollowerBonus :: int
  maxMutualBonus :: int
  baseCreditForUnfollowed :: int
  maxCreditLimit :: int

record TrustScore =
  ts_pubkey :: string
  isFollowed :: bool
  followsUs :: bool
  mutualFollowers :: nat
  creditLimit :: int
  score :: js_number

definition DEFAULT_CONFIG :: TrustConfig where
  "DEFAULT_CONFIG =
     \<lparr>baseCreditForFollowed = 1000, mutualFollowerBonus = 100, maxMutualBonus = 500,
      baseCreditForUnfollowed = 0, maxCreditLimit = 10000\<rparr>"

text \<open>
  The fields of the class. A followed pubkey read from a p tag with no second element is
  \<^verbatim>\<open>undefined\<close>, so the follow sets hold \<open>string option\<close>. The sets stored in
  \<open>followGraphCache\<close> are only ever emptied by \<^verbatim>\<open>clearCache\<close>, after the map itself
  has been cleared, so a value per key models them between two calls; the event loop of
  the manager, further down, holds them by reference.
\<close>

record SocialTrustManager =
  myPubkey :: string
  config :: TrustConfig
  myFollows :: "string option list"
  myFollowers :: "string list"
  followGraphCache :: "string \<rightharpoonup> string option list"

definition new_SocialTrustManager :: "string \<Rightarrow> TrustConfig \<Rightarrow> SocialTrustManager" where
  "new_SocialTrustManager me cfg =
     \<lparr>myPubkey = me, config = cfg, myFollows = [], myFollowers = [],
      followGraphCache = Map.empty\<rparr>"

definition follows_filter :: "string \<Rightarrow> Filter" where
  "follows_filter pk =
     \<lparr>kinds = [FOLLOW_LIST_KIND], authors = Some [Some pk], tag_p = None, tag_e = None,
      since = None, limit = None\<rparr>"

definition followers_filter :: "string \<Rightarrow> Filter" where
  "followers_filter pk =
     \<lparr>kinds = [FOLLOW_LIST_KIND], authors = None, tag_p = Some [pk], tag_e = None,
      since = None, limit = None\<rparr>"

text \<open>
  \<^verbatim>\<open>getFollows\<close>, \<^verbatim>\<open>loadMyFollows\<close> and \<^verbatim>\<open>computeTrust\<close> are given here as functions of the
  manager as it is when the call starts and of what the pool answers: a call from its
  start to its return, with no other call in between. The event loop of the manager,
  further down, runs the same code one \<^verbatim>\<open>await\<close> at a time, interleaved with other calls;
  a call that runs alone there gives what these functions give.
\<close>

text \<open>\<^verbatim>\<open>getFollows\<close>: the cached set when there is one (a Set object is truthy also when
  empty), else the follow list of the most recent event, which is cached.\<close>

definition getFollows ::
  "SimplePool \<Rightarrow> string \<Rightarrow> SocialTrustManager
     \<Rightarrow> (js_error + string option list) \<times> SocialTrustManager" where
  "getFollows pool pk s =
     (case followGraphCache s pk of
        Some cached \<Rightarrow> (Inr cached, s)
      | None \<Rightarrow>
          (case pool (follows_filter pk) of
             Inl err \<Rightarrow> (Inl err, s)
           | Inr [] \<Rightarrow> (Inr [], s\<lparr>followGraphCache := (followGraphCache s)(pk \<mapsto> [])\<rparr>)
           | Inr (e # es) \<Rightarrow>
               (let latest = reduce_latest e es;
                    follows = Set_of (extractFollowedPubkeys latest)
                in (Inr follows,
                    s\<lparr>followGraphCache := (followGraphCache s)(pk \<mapsto> follows)\<rparr>))))"

definition loadMyFollows ::
  "SimplePool \<Rightarrow> SocialTrustManager \<Rightarrow> (js_error + unit) \<times> SocialTrustManager" where
  "loadMyFollows pool s =
     (case getFollows pool (myPubkey s) s of
        (Inl err, s') \<Rightarrow> (Inl err, s')
      | (Inr follows, s') \<Rightarrow> (Inr (), s'\<lparr>myFollows := follows\<rparr>))"

definition countMutualFollowers :: "SocialTrustManager \<Rightarrow> string option list \<Rightarrow> nat" where
  "countMutualFollowers s peerFollows =
     length (filter (\<lambda>p. p \<in> set (myFollows s)) peerFollows)"

text \<open>Lines 105 to 128 of \<^verbatim>\<open>computeTrust\<close>: the credit limit from the two flags and the
  count.\<close>

definition computeTrust_creditLimit :: "TrustConfig \<Rightarrow> bool \<Rightarrow> bool \<Rightarrow> nat \<Rightarrow> int" where
  "computeTrust_creditLimit cfg isF fU mutual =
     (let creditLimit = (if isF then baseCreditForFollowed cfg else baseCreditForUnfollowed cfg);
          mutualBonus = int mutual * mutualFollowerBonus cfg;
          cappedBonus = (if mutualBonus > maxMutualBonus cfg then maxMutualBonus cfg
                         else mutualBonus);
          creditLimit = creditLimit + cappedBonus;
          creditLimit = (if fU \<and> isF then creditLimit + baseCreditForFollowed cfg sdiv 2
                         else creditLimit)
      in if creditLimit > maxCreditLimit cfg then maxCreditLimit cfg else creditLimit)"

text \<open>Line 131: \<^verbatim>\<open>Number((creditLimit * 100n) / this.config.maxCreditLimit)\<close>.\<close>

definition computeTrust_score :: "TrustConfig \<Rightarrow> int \<Rightarrow> js_error + js_number" where
  "computeTrust_score cfg cl =
     (case bigint_div (cl * 100) (maxCreditLimit cfg) of
        Inl err \<Rightarrow> Inl err
      | Inr q \<Rightarrow> Inr (Number_of_bigint q))"

definition computeTrust ::
  "SimplePool \<Rightarrow> string \<Rightarrow> SocialTrustManager
     \<Rightarrow> (js_error + TrustScore) \<times> SocialTrustManager" where
  "computeTrust pool peerPubkey s =
     (case (if myFollows s = [] then loadMyFollows pool s else (Inr (), s)) of
        (Inl err, s1) \<Rightarrow> (Inl err, s1)
      | (Inr _, s1) \<Rightarrow>
          (let isF = (Some peerPubkey \<in> set (myFollows s1));
               fU = (peerPubkey \<in> set (myFollowers s1))
           in case getFollows pool peerPubkey s1 of
                (Inl err, s2) \<Rightarrow> (Inl err, s2)
              | (Inr peerFollows, s2) \<Rightarrow>
                  (let mutual = countMutualFollowers s2 peerFollows;
                       cl = computeTrust_creditLimit (config s2) isF fU mutual
                   in case computeTrust_score (config s2) cl of
                        Inl err \<Rightarrow> (Inl err, s2)
                      | Inr sc \<Rightarrow>
                          (Inr \<lparr>ts_pubkey = peerPubkey, isFollowed = isF, followsUs = fU,
                                mutualFollowers = mutual, creditLimit = cl, score = sc\<rparr>,
                           s2))))"

text \<open>\<^verbatim>\<open>getTrustCalculator\<close>: the returned closure reads the fields of the manager when it
  is called, so it is a function of the state then.\<close>

definition getTrustCalculator :: "SocialTrustManager \<Rightarrow> string \<Rightarrow> bool \<Rightarrow> int" where
  "getTrustCalculator s pk isF =
     (if \<not> isF then baseCreditForUnfollowed (config s)
      else
        (let credit = baseCreditForFollowed (config s);
             credit = (if pk \<in> set (myFollowers s)
                       then credit + baseCreditForFollowed (config s) sdiv 2 else credit);
             credit =
               (case followGraphCache s pk of
                  None \<Rightarrow> credit
                | Some peerFollows \<Rightarrow>
                    (let mutuals = countMutualFollowers s peerFollows;
                         bonus = int mutuals * mutualFollowerBonus (config s)
                     in credit + (if bonus > maxMutualBonus (config s)
                                  then maxMutualBonus (config s) else bonus)))
         in if credit > maxCreditLimit (config s) then maxCreditLimit (config s) else credit))"

definition clearCache :: "SocialTrustManager \<Rightarrow> SocialTrustManager" where
  "clearCache s = s\<lparr>followGraphCache := Map.empty, myFollows := [], myFollowers := []\<rparr>"


text \<open>
  The credit formula in the words of the specification (section 4.3, steps 4 to 7), with
  floor division: the definition the code is compared with.
\<close>

definition spec_creditLimit :: "TrustConfig \<Rightarrow> bool \<Rightarrow> bool \<Rightarrow> nat \<Rightarrow> int" where
  "spec_creditLimit cfg isF fB n =
     (let base = (if isF then baseCreditForFollowed cfg else baseCreditForUnfollowed cfg);
          bonus = min (int n * mutualFollowerBonus cfg) (maxMutualBonus cfg)
      in min (base + bonus + (if fB \<and> isF then base div 2 else 0)) (maxCreditLimit cfg))"

definition spec_score :: "TrustConfig \<Rightarrow> int \<Rightarrow> int" where
  "spec_score cfg cl = cl * 100 div maxCreditLimit cfg"

text \<open>
  A run of the example of the specification: we follow bob and ten others, bob follows
  the same ten, nobody is known to follow us. Carol, whom we do not follow, follows two
  of the ten.
\<close>

definition ex_friends :: "string list" where
  "ex_friends = [''f0'', ''f1'', ''f2'', ''f3'', ''f4'', ''f5'', ''f6'', ''f7'', ''f8'', ''f9'']"

definition ex_follow_list :: "string \<Rightarrow> int \<Rightarrow> string list \<Rightarrow> Event" where
  "ex_follow_list author t followed =
     \<lparr>event_id = author, pubkey = author, created_at = t, kind = 3,
      tags = map (\<lambda>p. [''p'', p]) followed, content = [], sig = []\<rparr>"

definition ex_pool :: SimplePool where
  "ex_pool f =
     (if authors f = Some [Some ''me''] then Inr [ex_follow_list ''me'' 100 (''bob'' # ex_friends)]
      else if authors f = Some [Some ''bob''] then Inr [ex_follow_list ''bob'' 100 ex_friends]
      else if authors f = Some [Some ''carol''] then Inr [ex_follow_list ''carol'' 100 [''f0'', ''f1'']]
      else Inr [])"

section \<open>Peer discovery of the core package (NostrPeerDiscovery)\<close>

text \<open>\<^verbatim>\<open>/^[0-9a-f]{64}$/\<close>: without the multiline flag the anchors are the two ends of the
  string.\<close>

definition hex_lower :: "char \<Rightarrow> bool" where
  "hex_lower c = (c \<in> set ''0123456789abcdef'')"

definition PUBKEY_REGEX_test :: "string \<Rightarrow> bool" where
  "PUBKEY_REGEX_test s = (length s = 64 \<and> list_all hex_lower s)"

text \<open>The peer info of the core package (packages/core/src/types.ts, as its tests build
  it).\<close>

record IlpPeerInfo =
  ilpAddress :: string
  btpEndpoint :: string
  settlementEngine :: "string option"
  assetCode :: string
  assetScale :: int

text \<open>
  The functions of the core package that call \<^verbatim>\<open>parseIlpPeerInfo\<close> take the parser as
  a parameter, which returns the parsed payload or throws: what is proved of them holds
  for every parser, and so for \<open>parseIlpPeerInfo\<close> (defined with the events of the core
  package) with any \<^verbatim>\<open>JSON.parse\<close>.
\<close>

type_synonym 'i info_parser = "Event \<Rightarrow> js_error + 'i"

definition core_follows_filter :: "string \<Rightarrow> Filter" where
  "core_follows_filter pk =
     \<lparr>kinds = [3], authors = Some [Some pk], tag_p = None, tag_e = None, since = None,
      limit = Some 1\<rparr>"

definition peer_info_filter :: "string option list \<Rightarrow> Filter" where
  "peer_info_filter follows =
     \<lparr>kinds = [ILP_PEER_INFO_KIND], authors = Some follows, tag_p = None, tag_e = None,
      since = None, limit = None\<rparr>"

text \<open>\<^verbatim>\<open>events.sort((a, b) => b.created_at - a.created_at)\<close>: a stable sort, newest
  first.\<close>

definition sort_newest_first :: "Event list \<Rightarrow> Event list" where
  "sort_newest_first events = sort_key (\<lambda>e. - created_at e) events"

definition NostrPeerDiscovery_getFollows :: "SimplePool \<Rightarrow> string \<Rightarrow> js_error + string list" where
  "NostrPeerDiscovery_getFollows pool pk =
     (if \<not> PUBKEY_REGEX_test pk then Inl (PeerDiscoveryError ''Invalid pubkey format'')
      else
        (case pool (core_follows_filter pk) of
           Inl err \<Rightarrow> Inl (PeerDiscoveryError ''Failed to query relays for follow list'')
         | Inr [] \<Rightarrow> Inr []
         | Inr (e # es) \<Rightarrow>
             (case sort_newest_first (e # es) of
                [] \<Rightarrow> Inr []
              | mostRecent # _ \<Rightarrow>
                  Inr (Set_of (map (\<lambda>t. t ! 1)
                         (filter (\<lambda>t. tag_at t 0 = Some ''p'' \<and> 1 < length t)
                            (tags mostRecent)))))))"

text \<open>A JavaScript \<^verbatim>\<open>Map\<close> that is iterated is an association list in insertion order:
  \<^verbatim>\<open>get\<close> is \<open>map_of\<close>, \<^verbatim>\<open>set\<close> is \<open>AList.update\<close> (in place for a key that is
  there, at the end for a new one).\<close>

text \<open>The grouping loop of \<^verbatim>\<open>discoverPeers\<close>: an event replaces the one kept for its
  author only when it is strictly newer.\<close>

definition keep_newest :: "(string \<times> Event) list \<Rightarrow> Event \<Rightarrow> (string \<times> Event) list" where
  "keep_newest m event =
     (case map_of m (pubkey event) of
        None \<Rightarrow> AList.update (pubkey event) event m
      | Some existing \<Rightarrow>
          (if created_at event > created_at existing
           then AList.update (pubkey event) event m else m))"

definition eventsByPubkey :: "Event list \<Rightarrow> (string \<times> Event) list" where
  "eventsByPubkey events = foldl keep_newest [] events"

text \<open>The parsing loop: a throw of the parser is caught and the entry skipped.\<close>

definition parse_into ::
  "'i info_parser \<Rightarrow> (string \<times> 'i) list \<Rightarrow> string \<times> Event \<Rightarrow> (string \<times> 'i) list" where
  "parse_into parse result pe =
     (case parse (snd pe) of
        Inl _ \<Rightarrow> result
      | Inr info \<Rightarrow> AList.update (fst pe) info result)"

definition NostrPeerDiscovery_discoverPeers ::
  "'i info_parser \<Rightarrow> SimplePool \<Rightarrow> string \<Rightarrow> js_error + (string \<times> 'i) list" where
  "NostrPeerDiscovery_discoverPeers parse pool pk =
     (if \<not> PUBKEY_REGEX_test pk then Inl (PeerDiscoveryError ''Invalid pubkey format'')
      else
        (case NostrPeerDiscovery_getFollows pool pk of
           Inl err \<Rightarrow> Inl err
         | Inr follows \<Rightarrow>
             (if follows = [] then Inr []
              else
                (case pool (peer_info_filter (map Some follows)) of
                   Inl err \<Rightarrow> Inl err
                 | Inr events \<Rightarrow> Inr (foldl (parse_into parse) [] (eventsByPubkey events))))))"

text \<open>
  \<^verbatim>\<open>subscribeToPeerUpdates\<close>: the two variables the handler closes over are the state of
  one subscription. The handler returns the new state and the calls it made to the
  callback.
\<close>

record PeerSubscription =
  peerTimestamps :: "string \<rightharpoonup> int"
  isUnsubscribed :: bool

definition new_PeerSubscription :: PeerSubscription where
  "new_PeerSubscription = \<lparr>peerTimestamps = Map.empty, isUnsubscribed = False\<rparr>"

definition sub_onevent ::
  "'i info_parser \<Rightarrow> Event \<Rightarrow> PeerSubscription \<Rightarrow> PeerSubscription \<times> (string \<times> 'i) list" where
  "sub_onevent parse event sub =
     (if isUnsubscribed sub then (sub, [])
      else
        (let lastSeen = (case peerTimestamps sub (pubkey event) of None \<Rightarrow> 0 | Some t \<Rightarrow> t)
         in if created_at event \<le> lastSeen then (sub, [])
            else
              (sub\<lparr>peerTimestamps := (peerTimestamps sub)(pubkey event \<mapsto> created_at event)\<rparr>,
               case parse event of
                 Inl _ \<Rightarrow> []
               | Inr info \<Rightarrow> [(pubkey event, info)])))"

definition unsubscribe :: "PeerSubscription \<Rightarrow> PeerSubscription" where
  "unsubscribe sub = (if \<not> isUnsubscribed sub then sub\<lparr>isUnsubscribed := True\<rparr> else sub)"

text \<open>
  The live subscriptions of a process, in the order they were opened. A call of
  \<^verbatim>\<open>subscribeToPeerUpdates\<close> with a non-empty follow list opens a new one with state of
  its own; with an empty follow list it registers no handler. \<open>deliver\<close> is the pool
  handing an event to the handler of subscription \<open>i\<close>.
\<close>

definition NostrPeerDiscovery_subscribeToPeerUpdates ::
  "SimplePool \<Rightarrow> string \<Rightarrow> PeerSubscription list \<Rightarrow> js_error + PeerSubscription list" where
  "NostrPeerDiscovery_subscribeToPeerUpdates pool pk subs =
     (if \<not> PUBKEY_REGEX_test pk then Inl (PeerDiscoveryError ''Invalid pubkey format'')
      else
        (case NostrPeerDiscovery_getFollows pool pk of
           Inl err \<Rightarrow> Inl err
         | Inr follows \<Rightarrow>
             (if follows = [] then Inr subs else Inr (subs @ [new_PeerSubscription]))))"

definition deliver ::
  "'i info_parser \<Rightarrow> nat \<Rightarrow> Event \<Rightarrow> PeerSubscription list
     \<Rightarrow> PeerSubscription list \<times> (string \<times> 'i) list" where
  "deliver parse i event subs =
     (if i < length subs
      then (subs[i := fst (sub_onevent parse event (subs ! i))],
            snd (sub_onevent parse event (subs ! i)))
      else (subs, []))"

section \<open>Peer discovery of the protocol package (NostrPeerDiscoveryService)\<close>

record LegacyIlpPeerInfo =
  pi_pubkey :: string
  pi_ilpAddress :: "string option"
  pi_btpEndpoint :: "string option"
  pi_assets :: "(string option \<times> int) list"
  pi_settlement :: "(string option \<times> string list) list"
  pi_relays :: "string option list"
  pi_createdAt :: int

record DiscoveredPeer = LegacyIlpPeerInfo +
  dp_isFollowed :: bool
  petname :: "string option"

text \<open>
  \<^verbatim>\<open>parseIlpPeerInfo\<close> of src/events/parser.ts. \<^verbatim>\<open>parseInt(t[2], 10)\<close> is a builtin: it is
  the parameter \<open>parseInt10\<close>, with \<open>None\<close> for NaN, so that \<^verbatim>\<open>parseInt(..) || 0\<close> is 0
  on NaN.
\<close>

definition parseIlpPeerInfo_legacy ::
  "(string option \<Rightarrow> int option) \<Rightarrow> Event \<Rightarrow> LegacyIlpPeerInfo option" where
  "parseIlpPeerInfo_legacy parseInt10 event =
     (if kind event \<noteq> ILP_PEER_INFO_KIND then None
      else
        (case (find_tag ''ilp'' (tags event), find_tag ''btp'' (tags event)) of
           (Some ilpTag, Some btpTag) \<Rightarrow>
             Some \<lparr>pi_pubkey = pubkey event,
                   pi_ilpAddress = tag_at ilpTag 1,
                   pi_btpEndpoint = tag_at btpTag 1,
                   pi_assets =
                     map (\<lambda>t. (tag_at t 1,
                                case parseInt10 (tag_at t 2) of None \<Rightarrow> 0 | Some n \<Rightarrow> n))
                       (filter (\<lambda>t. tag_at t 0 = Some ''asset'') (tags event)),
                   pi_settlement =
                     map (\<lambda>t. (tag_at t 1, drop 2 t))
                       (filter (\<lambda>t. tag_at t 0 = Some ''settlement'') (tags event)),
                   pi_relays =
                     map (\<lambda>t. tag_at t 1)
                       (filter (\<lambda>t. tag_at t 0 = Some ''relay'') (tags event)),
                   pi_createdAt = created_at event\<rparr>
         | _ \<Rightarrow> None))"

record NostrPeerDiscoveryService =
  svc_pubkey :: string
  followedPubkeys :: "string option list"
  peerInfoCache :: "string \<rightharpoonup> LegacyIlpPeerInfo"

definition new_NostrPeerDiscoveryService :: "string \<Rightarrow> NostrPeerDiscoveryService" where
  "new_NostrPeerDiscoveryService pk =
     \<lparr>svc_pubkey = pk, followedPubkeys = [], peerInfoCache = Map.empty\<rparr>"

text \<open>
  \<^verbatim>\<open>queryEvents\<close>: the promise resolves with the results of the query, or with no events
  when the timer of \<^verbatim>\<open>queryTimeout\<close> fires first; it never rejects. The query is chained
  with \<^verbatim>\<open>.then\<close> and no rejection handler: when \<^verbatim>\<open>querySync\<close> rejects, the timer is left to
  fire, so the promise resolves with no events once the timeout has passed, and the
  rejection is an unhandled one, which the host reports (Node ends the process on it by
  default). The second component is the unhandled rejections raised. A query that is
  slower than the timeout resolves with no events too: for the caller it is a pool that
  answers with none.
\<close>

definition queryEvents :: "SimplePool \<Rightarrow> Filter \<Rightarrow> Event list \<times> js_error list" where
  "queryEvents pool f =
     (case pool f of Inl err \<Rightarrow> ([], [err]) | Inr results \<Rightarrow> (results, []))"

text \<open>The methods of the service return their value, the service after the call, and
  the unhandled rejections their queries raised.\<close>

definition refreshFollowList ::
  "SimplePool \<Rightarrow> NostrPeerDiscoveryService
     \<Rightarrow> string option list \<times> NostrPeerDiscoveryService \<times> js_error list" where
  "refreshFollowList pool s =
     (case queryEvents pool (follows_filter (svc_pubkey s)) of
        ([], unhandled) \<Rightarrow> ([], s, unhandled)
      | (e # es, unhandled) \<Rightarrow>
          (let latest = reduce_latest e es;
               pubkeys = extractFollowedPubkeys latest
           in (pubkeys, s\<lparr>followedPubkeys := Set_of pubkeys\<rparr>, unhandled)))"

text \<open>The loop of \<^verbatim>\<open>discoverPeers\<close>: every event that parses is cached under its author
  and pushed to the result.\<close>

definition push_peer ::
  "(string option \<Rightarrow> int option) \<Rightarrow> DiscoveredPeer list \<times> NostrPeerDiscoveryService \<Rightarrow> Event
     \<Rightarrow> DiscoveredPeer list \<times> NostrPeerDiscoveryService" where
  "push_peer parseInt10 acc event =
     (case parseIlpPeerInfo_legacy parseInt10 event of
        None \<Rightarrow> acc
      | Some peerInfo \<Rightarrow>
          (fst acc @ [LegacyIlpPeerInfo.extend peerInfo (DiscoveredPeer.fields True None)],
           (snd acc)\<lparr>peerInfoCache := (peerInfoCache (snd acc))(pi_pubkey peerInfo \<mapsto> peerInfo)\<rparr>))"

definition NostrPeerDiscoveryService_discoverPeers ::
  "(string option \<Rightarrow> int option) \<Rightarrow> SimplePool \<Rightarrow> NostrPeerDiscoveryService
     \<Rightarrow> DiscoveredPeer list \<times> NostrPeerDiscoveryService \<times> js_error list" where
  "NostrPeerDiscoveryService_discoverPeers parseInt10 pool s =
     (case refreshFollowList pool s of
        (_, s1, unhandled1) \<Rightarrow>
          (if followedPubkeys s1 = [] then ([], s1, unhandled1)
           else
             (case queryEvents pool (peer_info_filter (followedPubkeys s1)) of
                (peerInfoEvents, unhandled2) \<Rightarrow>
                  (case foldl (push_peer parseInt10) ([], s1) peerInfoEvents of
                     (peers, s2) \<Rightarrow> (peers, s2, unhandled1 @ unhandled2)))))"

definition getPeerInfo ::
  "(string option \<Rightarrow> int option) \<Rightarrow> SimplePool \<Rightarrow> string \<Rightarrow> NostrPeerDiscoveryService
     \<Rightarrow> LegacyIlpPeerInfo option \<times> NostrPeerDiscoveryService \<times> js_error list" where
  "getPeerInfo parseInt10 pool pk s =
     (case peerInfoCache s pk of
        Some cached \<Rightarrow> (Some cached, s, [])
      | None \<Rightarrow>
          (case queryEvents pool (peer_info_filter [Some pk]) of
             ([], unhandled) \<Rightarrow> (None, s, unhandled)
           | (e # es, unhandled) \<Rightarrow>
               (case parseIlpPeerInfo_legacy parseInt10 (reduce_latest e es) of
                  None \<Rightarrow> (None, s, unhandled)
                | Some peerInfo \<Rightarrow>
                    (Some peerInfo, s\<lparr>peerInfoCache := (peerInfoCache s)(pk \<mapsto> peerInfo)\<rparr>,
                     unhandled))))"

text \<open>The handler of the service's \<^verbatim>\<open>subscribeToPeerUpdates\<close>: it compares with, and
  writes, the cache of the service instance. It returns the calls made to
  \<^verbatim>\<open>onUpdate\<close>.\<close>

definition service_onevent ::
  "(string option \<Rightarrow> int option) \<Rightarrow> Event \<Rightarrow> NostrPeerDiscoveryService
     \<Rightarrow> NostrPeerDiscoveryService \<times> LegacyIlpPeerInfo list" where
  "service_onevent parseInt10 event s =
     (case parseIlpPeerInfo_legacy parseInt10 event of
        None \<Rightarrow> (s, [])
      | Some peerInfo \<Rightarrow>
          (case peerInfoCache s (pi_pubkey peerInfo) of
             None \<Rightarrow>
               (s\<lparr>peerInfoCache := (peerInfoCache s)(pi_pubkey peerInfo \<mapsto> peerInfo)\<rparr>,
                [peerInfo])
           | Some existing \<Rightarrow>
               (if pi_createdAt peerInfo > pi_createdAt existing
                then (s\<lparr>peerInfoCache := (peerInfoCache s)(pi_pubkey peerInfo \<mapsto> peerInfo)\<rparr>,
                      [peerInfo])
                else (s, []))))"

section \<open>Latest-record resolution in the words of the specification\<close>

text \<open>A record of the list that no record of the list is newer than.\<close>

definition newest_in :: "Event list \<Rightarrow> Event \<Rightarrow> bool" where
  "newest_in xs x = (\<forall>y\<in>set xs. created_at y \<le> created_at x)"

text \<open>The first of the newest records of a list, in the order of the list.\<close>

definition first_newest :: "Event list \<Rightarrow> Event option" where
  "first_newest xs = (case filter (newest_in xs) xs of [] \<Rightarrow> None | x # _ \<Rightarrow> Some x)"

text \<open>A follow list with one p tag, for the examples.\<close>

definition ex_event :: "string \<Rightarrow> string \<Rightarrow> int \<Rightarrow> Event" where
  "ex_event i author t =
     \<lparr>event_id = i, pubkey = author, created_at = t, kind = 3, tags = [[''p'', i]],
      content = [], sig = []\<rparr>"

section \<open>Vocabulary and examples for the discovery properties\<close>

text \<open>The last-seen timestamp of an author in one subscription: 0 before the first
  record (\<^verbatim>\<open>peerTimestamps.get(event.pubkey) ?? 0\<close>).\<close>

definition lastSeen_of :: "PeerSubscription \<Rightarrow> string \<Rightarrow> int" where
  "lastSeen_of sub author = (case peerTimestamps sub author of None \<Rightarrow> 0 | Some t \<Rightarrow> t)"

text \<open>The timestamp of the record the service instance has cached for an author.\<close>

definition cachedAt :: "NostrPeerDiscoveryService \<Rightarrow> string \<Rightarrow> int option" where
  "cachedAt s author = map_option pi_createdAt (peerInfoCache s author)"

text \<open>
  The pool handing an event to the handler of the \<open>i\<close>-th subscription of a service
  instance: every handler reads and writes the one \<open>peerInfoCache\<close> of the instance.
\<close>

definition service_deliver ::
  "(string option \<Rightarrow> int option) \<Rightarrow> nat \<Rightarrow> Event \<Rightarrow> NostrPeerDiscoveryService
     \<Rightarrow> NostrPeerDiscoveryService \<times> LegacyIlpPeerInfo list" where
  "service_deliver parseInt10 i event s = service_onevent parseInt10 event s"

definition ex_hexkey :: "char \<Rightarrow> string" where
  "ex_hexkey c = replicate 64 c"

text \<open>A parser for the examples: the payload \<^verbatim>\<open>{}\<close> parses (to the id of the event),
  every other payload throws.\<close>

definition ex_parse :: "string info_parser" where
  "ex_parse ev =
     (if content ev = ''{}'' then Inr (event_id ev) else Inl (InvalidEventError ''bad''))"

definition ex_advert :: "string \<Rightarrow> string \<Rightarrow> int \<Rightarrow> string \<Rightarrow> Event" where
  "ex_advert i author t body =
     \<lparr>event_id = i, pubkey = author, created_at = t, kind = 10032, tags = [],
      content = body, sig = []\<rparr>"

text \<open>A tag-based peer advertisement, as the protocol package builds it.\<close>

definition ex_peer_event :: "string \<Rightarrow> string \<Rightarrow> int \<Rightarrow> string \<Rightarrow> Event" where
  "ex_peer_event i author t addr =
     \<lparr>event_id = i, pubkey = author, created_at = t, kind = 10032,
      tags = [[''ilp'', addr], [''btp'', ''wss://btp'']], content = [], sig = []\<rparr>"

text \<open>Two relays that hold different versions of alice's advertisement: the query
  returns both events (the pool removes duplicates by event id only).\<close>

definition ex_relays :: SimplePool where
  "ex_relays f =
     (if kinds f = [3] then Inr [ex_event ''alice'' ''me'' 50]
      else if kinds f = [10032]
      then Inr [ex_peer_event ''v1'' ''alice'' 100 ''g.old'',
                ex_peer_event ''v2'' ''alice'' 200 ''g.new'']
      else Inr [])"

text \<open>We follow alice and bob. Alice's newest advertisement parses; bob's newest one
  does not, though an older one of his does.\<close>

definition ex_core_pool :: SimplePool where
  "ex_core_pool f =
     (if kinds f = [3]
      then Inr [\<lparr>event_id = ''f'', pubkey = ex_hexkey CHR ''a'', created_at = 50, kind = 3,
                 tags = [[''p'', ''alice''], [''p'', ''bob'']], content = [], sig = []\<rparr>]
      else if kinds f = [10032]
      then Inr [ex_advert ''a1'' ''alice'' 100 ''{}'', ex_advert ''b1'' ''bob'' 100 ''{}'',
                ex_advert ''a2'' ''alice'' 200 ''{}'', ex_advert ''b2'' ''bob'' 300 ''broken'']
      else Inr [])"

section \<open>The SPSP client of the core package (NostrSpspClient.requestSpspInfo)\<close>

record SpspInfo =
  destinationAccount :: string
  sharedSecret :: string

record SpspResponse =
  requestId :: string
  resp_destinationAccount :: string
  resp_sharedSecret :: string

text \<open>
  \<^verbatim>\<open>parseSpspResponse(event, mySecretKey, event.pubkey)\<close> decrypts and validates; the
  version of parsers.ts among the sources does not have it yet, and its cryptography is
  an external collaborator: it is a parameter that returns the response or throws.
\<close>

type_synonym response_parser = "Event \<Rightarrow> js_error + SpspResponse"

text \<open>
  The promise of \<^verbatim>\<open>requestSpspInfo\<close> and what its two callbacks close over: the flag
  \<open>resolved\<close>, the timer (armed until it fires or is cleared), the subscription, and
  the promise itself. \<open>outcome\<close> is \<open>None\<close> while the promise is pending;
  \<open>settle_calls\<close> counts the calls of \<^verbatim>\<open>resolve\<close> and \<^verbatim>\<open>reject\<close>. The pool delivers events
  after the executor has returned, so the handler finds the timer and the subscription
  initialised; \<^verbatim>\<open>clearTimeout\<close> and \<^verbatim>\<open>sub.close()\<close> do not throw.
\<close>

record PendingRequest =
  pr_requestId :: string
  deadline :: int
  resolved :: bool
  timerArmed :: bool
  subOpen :: bool
  outcome :: "(js_error + SpspInfo) option"
  settle_calls :: nat

definition start_request :: "string \<Rightarrow> int \<Rightarrow> PendingRequest" where
  "start_request rid dl =
     \<lparr>pr_requestId = rid, deadline = dl, resolved = False, timerArmed = True, subOpen = True,
      outcome = None, settle_calls = 0\<rparr>"

text \<open>\<^verbatim>\<open>resolve(v)\<close> or \<^verbatim>\<open>reject(e)\<close>: only the first call settles a promise.\<close>

definition promise_settle :: "js_error + SpspInfo \<Rightarrow> PendingRequest \<Rightarrow> PendingRequest" where
  "promise_settle v st =
     st\<lparr>outcome := (case outcome st of None \<Rightarrow> Some v | Some old \<Rightarrow> Some old),
        settle_calls := Suc (settle_calls st)\<rparr>"

definition onevent :: "response_parser \<Rightarrow> Event \<Rightarrow> PendingRequest \<Rightarrow> PendingRequest" where
  "onevent parse responseEvent st =
     (if resolved st then st
      else
        (case parse responseEvent of
           Inl _ \<Rightarrow> st
         | Inr response \<Rightarrow>
             (if requestId response \<noteq> pr_requestId st then st
              else promise_settle
                     (Inr \<lparr>destinationAccount = resp_destinationAccount response,
                           sharedSecret = resp_sharedSecret response\<rparr>)
                     (st\<lparr>resolved := True, timerArmed := False, subOpen := False\<rparr>))))"

definition ontimeout :: "PendingRequest \<Rightarrow> PendingRequest" where
  "ontimeout st =
     (if resolved st then st
      else promise_settle (Inl (SpspTimeoutError ''SPSP request timed out''))
             (st\<lparr>resolved := True, subOpen := False\<rparr>))"

text \<open>
  What the event loop does to a pending request: the pool hands an event to the handler
  (here at any time, also after \<^verbatim>\<open>sub.close()\<close>), or the timer comes due. \<^verbatim>\<open>setTimeout\<close>
  runs its callback once, not before the delay has passed and not after
  \<^verbatim>\<open>clearTimeout\<close>. Each step carries the time at which it happens.
\<close>

datatype loop_step = Deliver int Event | TimerDue int

fun step :: "response_parser \<Rightarrow> PendingRequest \<Rightarrow> loop_step \<Rightarrow> PendingRequest" where
  "step parse st (Deliver t ev) = onevent parse ev st"
| "step parse st (TimerDue t) =
     (if timerArmed st \<and> deadline st \<le> t then ontimeout (st\<lparr>timerArmed := False\<rparr>) else st)"

definition run :: "response_parser \<Rightarrow> loop_step list \<Rightarrow> PendingRequest \<Rightarrow> PendingRequest" where
  "run parse steps st = foldl (step parse) st steps"

text \<open>A candidate that decrypts and carries the id of the outstanding request.\<close>

definition is_match :: "response_parser \<Rightarrow> string \<Rightarrow> Event \<Rightarrow> bool" where
  "is_match parse rid ev = (case parse ev of Inl _ \<Rightarrow> False | Inr r \<Rightarrow> requestId r = rid)"

fun delivers_match :: "response_parser \<Rightarrow> string \<Rightarrow> loop_step \<Rightarrow> bool" where
  "delivers_match parse rid (Deliver t ev) = is_match parse rid ev"
| "delivers_match parse rid (TimerDue t) = False"

fun timer_due :: "int \<Rightarrow> loop_step \<Rightarrow> bool" where
  "timer_due dl (TimerDue t) = (dl \<le> t)"
| "timer_due dl (Deliver t ev) = False"

definition is_timeout :: "(js_error + SpspInfo) option \<Rightarrow> bool" where
  "is_timeout out = (case out of Some (Inl (SpspTimeoutError _)) \<Rightarrow> True | _ \<Rightarrow> False)"

definition is_resolution :: "(js_error + SpspInfo) option \<Rightarrow> bool" where
  "is_resolution out = (case out of Some (Inr _) \<Rightarrow> True | _ \<Rightarrow> False)"

section \<open>The SPSP client of the protocol package (src/spsp/nostr-spsp-client.ts)\<close>

text \<open>
  \<^verbatim>\<open>waitForResponse\<close>: the promise, its timer and its subscription. The handler has no
  flag and reads no request id from the payload (the subscription filter selects the
  author and the e tag). \<^verbatim>\<open>nip44.decrypt\<close> followed by \<^verbatim>\<open>JSON.parse\<close> is the parameter
  \<open>decrypt\<close>.
\<close>

record 'r ResponseWait =
  w_timerArmed :: bool
  w_subOpen :: bool
  w_outcome :: "(js_error + 'r) option"
  w_settle_calls :: nat

definition start_wait :: "'r ResponseWait" where
  "start_wait = \<lparr>w_timerArmed = True, w_subOpen = True, w_outcome = None, w_settle_calls = 0\<rparr>"

definition wait_settle :: "js_error + 'r \<Rightarrow> 'r ResponseWait \<Rightarrow> 'r ResponseWait" where
  "wait_settle v st =
     st\<lparr>w_outcome := (case w_outcome st of None \<Rightarrow> Some v | Some old \<Rightarrow> Some old),
        w_settle_calls := Suc (w_settle_calls st)\<rparr>"

definition waitForResponse_onevent ::
  "(Event \<Rightarrow> js_error + 'r) \<Rightarrow> Event \<Rightarrow> 'r ResponseWait \<Rightarrow> 'r ResponseWait" where
  "waitForResponse_onevent decrypt event st =
     (let st1 = st\<lparr>w_timerArmed := False, w_subOpen := False\<rparr>
      in case decrypt event of
           Inr response \<Rightarrow> wait_settle (Inr response) st1
         | Inl err \<Rightarrow> wait_settle (Inl (PlainError ''Failed to decrypt SPSP response'')) st1)"

definition waitForResponse_ontimeout :: "'r ResponseWait \<Rightarrow> 'r ResponseWait" where
  "waitForResponse_ontimeout st =
     wait_settle (Inl (PlainError ''SPSP request timeout'')) (st\<lparr>w_subOpen := False\<rparr>)"

text \<open>The static info of the protocol package: tags, built and parsed.\<close>

record SpspInfoParams =
  p_destinationAccount :: string
  p_sharedSecret :: string
  p_receiptsEnabled :: "bool option"

record LegacySpspInfo =
  si_pubkey :: string
  si_destinationAccount :: "string option"
  si_sharedSecret :: "string option"
  si_receiptsEnabled :: bool
  si_createdAt :: int

text \<open>\<^verbatim>\<open>buildSpspInfoEvent\<close> of src/events/builder.ts; \<open>now\<close> is \<^verbatim>\<open>Date.now()\<close> in milliseconds.\<close>

definition buildSpspInfoEvent_legacy :: "int \<Rightarrow> SpspInfoParams \<Rightarrow> EventTemplate" where
  "buildSpspInfoEvent_legacy now params =
     \<lparr>t_kind = SPSP_INFO_KIND,
      t_created_at = now div 1000,
      t_tags =
        [[''destination'', p_destinationAccount params], [''secret'', p_sharedSecret params]] @
        (case p_receiptsEnabled params of
           None \<Rightarrow> []
         | Some b \<Rightarrow> [[''receipts'', if b then ''true'' else ''false'']]),
      t_content = []\<rparr>"

text \<open>\<^verbatim>\<open>finalizeEvent\<close> keeps the template and adds the pubkey of the signer, the id and the
  signature, which are the work of the cryptographic collaborator.\<close>

definition finalizeEvent :: "string \<Rightarrow> string \<Rightarrow> string \<Rightarrow> EventTemplate \<Rightarrow> Event" where
  "finalizeEvent signer i sg t =
     \<lparr>event_id = i, pubkey = signer, created_at = t_created_at t, kind = t_kind t,
      tags = t_tags t, content = t_content t, sig = sg\<rparr>"

definition parseSpspInfo_legacy :: "Event \<Rightarrow> LegacySpspInfo option" where
  "parseSpspInfo_legacy event =
     (if kind event \<noteq> SPSP_INFO_KIND then None
      else
        (case (find_tag ''destination'' (tags event), find_tag ''secret'' (tags event)) of
           (Some destTag, Some secretTag) \<Rightarrow>
             Some \<lparr>si_pubkey = pubkey event,
                   si_destinationAccount = tag_at destTag 1,
                   si_sharedSecret = tag_at secretTag 1,
                   si_receiptsEnabled =
                     (case find_tag ''receipts'' (tags event) of
                        None \<Rightarrow> False
                      | Some receiptsTag \<Rightarrow> tag_at receiptsTag 1 = Some ''true''),
                   si_createdAt = created_at event\<rparr>
         | _ \<Rightarrow> None))"



text \<open>The filter of the query that \<^verbatim>\<open>getStaticSpspParams\<close> sends.\<close>

definition spsp_info_filter :: "string \<Rightarrow> Filter" where
  "spsp_info_filter pk =
     \<lparr>kinds = [SPSP_INFO_KIND], authors = Some [Some pk], tag_p = None, tag_e = None,
      since = None, limit = None\<rparr>"

section \<open>Vocabulary and examples for the request/response properties\<close>

text \<open>What holds of a pending request at every moment between two steps of the event
  loop.\<close>

definition pending_inv :: "PendingRequest \<Rightarrow> bool" where
  "pending_inv st =
     (settle_calls st \<le> 1 \<and>
      (resolved st \<longleftrightarrow> outcome st \<noteq> None) \<and>
      (resolved st \<longleftrightarrow> settle_calls st = 1) \<and>
      (resolved st \<longleftrightarrow> \<not> subOpen st) \<and>
      (resolved st \<longleftrightarrow> \<not> timerArmed st) \<and>
      (outcome st \<noteq> None \<longrightarrow> is_resolution (outcome st) \<noteq> is_timeout (outcome st)))"

definition ex_response :: "string \<Rightarrow> string \<Rightarrow> Event" where
  "ex_response i body =
     \<lparr>event_id = i, pubkey = ''receiver'', created_at = 1, kind = 23195,
      tags = [[''p'', ''me'']], content = body, sig = []\<rparr>"

text \<open>A response parser for the examples: the content \<^verbatim>\<open>garbage\<close> does not decrypt, every
  other content is the request id the response carries.\<close>

definition ex_response_parser :: response_parser where
  "ex_response_parser ev =
     (if content ev = ''garbage'' then Inl (InvalidEventError ''cannot decrypt'')
      else Inr \<lparr>requestId = content ev, resp_destinationAccount = event_id ev,
                resp_sharedSecret = ''c2VjcmV0''\<rparr>)"

section \<open>Building and parsing events (packages/core/src/events, src/events)\<close>

text \<open>
  The builders and parsers of the core package carry the payload as JSON text in the
  content of the event. \<^verbatim>\<open>JSON.stringify\<close> and \<^verbatim>\<open>JSON.parse\<close> are builtins of the language:
  they are the parameters \<open>JSON_stringify\<close> and \<open>JSON_parse\<close> (\<open>None\<close> when the text is not
  JSON and \<^verbatim>\<open>JSON.parse\<close> throws). A JSON value is what \<^verbatim>\<open>JSON.parse\<close> returns; an object
  holds each key once. A numeral that overflows parses to an infinity, which
  \<^verbatim>\<open>Number.isInteger\<close> refuses like a fraction: it is any number that is not an integer
  here.
\<close>

datatype json =
    JNull
  | JBool bool
  | JNumber real
  | JString string
  | JArray "json list"
  | JObject "(string \<times> json) list"

text \<open>\<^verbatim>\<open>typeof value === 'object' && value !== null\<close>: an array is an object too.\<close>

definition isObject :: "json \<Rightarrow> bool" where
  "isObject v = (case v of JObject _ \<Rightarrow> True | JArray _ \<Rightarrow> True | _ \<Rightarrow> False)"

text \<open>\<^verbatim>\<open>parsed.key\<close> in the destructuring: \<^verbatim>\<open>undefined\<close> when the object has no such
  property; an array has none of the properties that are read.\<close>

definition json_get :: "json \<Rightarrow> string \<Rightarrow> json option" where
  "json_get v k = (case v of JObject members \<Rightarrow> map_of members k | _ \<Rightarrow> None)"

text \<open>The test of a required field,
  \<^verbatim>\<open>typeof x !== 'string' || x.length === 0\<close>: the string when it passes.\<close>

definition required_string :: "json \<Rightarrow> string \<Rightarrow> string option" where
  "required_string v k =
     (case json_get v k of
        Some (JString s) \<Rightarrow> (if s = [] then None else Some s)
      | _ \<Rightarrow> None)"

text \<open>
  The payload objects as \<^verbatim>\<open>JSON.stringify\<close> reads them: a property whose value is
  \<^verbatim>\<open>undefined\<close> is left out. The asset scale of \<open>IlpPeerInfo\<close> is an integer.
\<close>

definition IlpPeerInfo_json :: "IlpPeerInfo \<Rightarrow> json" where
  "IlpPeerInfo_json info =
     JObject
       ([(''ilpAddress'', JString (ilpAddress info)),
         (''btpEndpoint'', JString (btpEndpoint info))] @
        (case settlementEngine info of
           None \<Rightarrow> []
         | Some engine \<Rightarrow> [(''settlementEngine'', JString engine)]) @
        [(''assetCode'', JString (assetCode info)),
         (''assetScale'', JNumber (of_int (assetScale info)))])"

definition SpspInfo_json :: "SpspInfo \<Rightarrow> json" where
  "SpspInfo_json info =
     JObject [(''destinationAccount'', JString (destinationAccount info)),
              (''sharedSecret'', JString (sharedSecret info))]"

text \<open>
  The builders of packages/core/src/events/builders.ts: they sign with
  \<^verbatim>\<open>finalizeEvent\<close>, whose outputs are the pubkey of the signer, the id and the
  signature; \<open>now\<close> is \<^verbatim>\<open>Date.now()\<close> in milliseconds.
\<close>

definition buildIlpPeerInfoEvent ::
  "(json \<Rightarrow> string) \<Rightarrow> int \<Rightarrow> string \<Rightarrow> string \<Rightarrow> string \<Rightarrow> IlpPeerInfo \<Rightarrow> Event" where
  "buildIlpPeerInfoEvent JSON_stringify now signer i sg info =
     finalizeEvent signer i sg
       \<lparr>t_kind = ILP_PEER_INFO_KIND, t_created_at = now div 1000, t_tags = [],
        t_content = JSON_stringify (IlpPeerInfo_json info)\<rparr>"

definition buildSpspInfoEvent ::
  "(json \<Rightarrow> string) \<Rightarrow> int \<Rightarrow> string \<Rightarrow> string \<Rightarrow> string \<Rightarrow> SpspInfo \<Rightarrow> Event" where
  "buildSpspInfoEvent JSON_stringify now signer i sg info =
     finalizeEvent signer i sg
       \<lparr>t_kind = SPSP_INFO_KIND, t_created_at = now div 1000, t_tags = [],
        t_content = JSON_stringify (SpspInfo_json info)\<rparr>"

text \<open>
  The parsers of packages/core/src/events/parsers.ts (the version among the sources has
  \<^verbatim>\<open>parseIlpPeerInfo\<close> and \<^verbatim>\<open>parseSpspInfo\<close>). Every check throws an
  \<^verbatim>\<open>InvalidEventError\<close>; the checks come in the order of the source.
\<close>

definition parseIlpPeerInfo :: "(string \<Rightarrow> json option) \<Rightarrow> Event \<Rightarrow> js_error + IlpPeerInfo" where
  "parseIlpPeerInfo JSON_parse event =
     (if kind event \<noteq> ILP_PEER_INFO_KIND
      then Inl (InvalidEventError ''Expected event kind 10032'')
      else
        (case JSON_parse (content event) of
           None \<Rightarrow> Inl (InvalidEventError ''Failed to parse event content as JSON'')
         | Some parsed \<Rightarrow>
             (if \<not> isObject parsed
              then Inl (InvalidEventError ''Event content must be a JSON object'')
              else
                (case required_string parsed ''ilpAddress'' of
                   None \<Rightarrow> Inl (InvalidEventError ''Missing or invalid required field: ilpAddress'')
                 | Some ilpAddress' \<Rightarrow>
                (case required_string parsed ''btpEndpoint'' of
                   None \<Rightarrow> Inl (InvalidEventError ''Missing or invalid required field: btpEndpoint'')
                 | Some btpEndpoint' \<Rightarrow>
                (case required_string parsed ''assetCode'' of
                   None \<Rightarrow> Inl (InvalidEventError ''Missing or invalid required field: assetCode'')
                 | Some assetCode' \<Rightarrow>
                (case (case json_get parsed ''assetScale'' of
                         Some (JNumber n) \<Rightarrow> (if n \<in> \<int> then Some \<lfloor>n\<rfloor> else None)
                       | _ \<Rightarrow> None) of
                   None \<Rightarrow> Inl (InvalidEventError ''Missing or invalid required field: assetScale'')
                 | Some assetScale' \<Rightarrow>
                (case json_get parsed ''settlementEngine'' of
                   None \<Rightarrow>
                     Inr \<lparr>ilpAddress = ilpAddress', btpEndpoint = btpEndpoint',
                          settlementEngine = None, assetCode = assetCode',
                          assetScale = assetScale'\<rparr>
                 | Some (JString engine) \<Rightarrow>
                     Inr \<lparr>ilpAddress = ilpAddress', btpEndpoint = btpEndpoint',
                          settlementEngine = Some engine, assetCode = assetCode',
                          assetScale = assetScale'\<rparr>
                 | Some _ \<Rightarrow>
                     Inl (InvalidEventError
                            ''Invalid optional field: settlementEngine must be a string'')))))))))"

definition parseSpspInfo :: "(string \<Rightarrow> json option) \<Rightarrow> Event \<Rightarrow> js_error + SpspInfo" where
  "parseSpspInfo JSON_parse event =
     (if kind event \<noteq> SPSP_INFO_KIND
      then Inl (InvalidEventError ''Expected event kind 10047'')
      else
        (case JSON_parse (content event) of
           None \<Rightarrow> Inl (InvalidEventError ''Failed to parse event content as JSON'')
         | Some parsed \<Rightarrow>
             (if \<not> isObject parsed
              then Inl (InvalidEventError ''Event content must be a JSON object'')
              else
                (case required_string parsed ''destinationAccount'' of
                   None \<Rightarrow>
                     Inl (InvalidEventError ''Missing or invalid required field: destinationAccount'')
                 | Some destinationAccount' \<Rightarrow>
                (case required_string parsed ''sharedSecret'' of
                   None \<Rightarrow>
                     Inl (InvalidEventError ''Missing or invalid required field: sharedSecret'')
                 | Some sharedSecret' \<Rightarrow>
                     Inr \<lparr>destinationAccount = destinationAccount',
                          sharedSecret = sharedSecret'\<rparr>)))))"

text \<open>
  \<^verbatim>\<open>buildIlpPeerInfoEvent\<close> of src/events/builder.ts, the tag-based advertisement of the
  protocol package. \<^verbatim>\<open>asset.scale.toString()\<close> is a builtin on a number: it is the
  parameter \<open>Number_toString\<close>. An optional array that is given, even empty, is truthy.
\<close>

record IlpPeerInfoParams =
  ip_ilpAddress :: string
  ip_btpEndpoint :: string
  ip_assets :: "(string \<times> real) list option"
  ip_settlement :: "(string \<times> string list) list option"
  ip_relays :: "string list option"

definition buildIlpPeerInfoEvent_legacy ::
  "(real \<Rightarrow> string) \<Rightarrow> int \<Rightarrow> IlpPeerInfoParams \<Rightarrow> EventTemplate" where
  "buildIlpPeerInfoEvent_legacy Number_toString now params =
     \<lparr>t_kind = ILP_PEER_INFO_KIND,
      t_created_at = now div 1000,
      t_tags =
        [[''ilp'', ip_ilpAddress params], [''btp'', ip_btpEndpoint params]] @
        (case ip_assets params of
           None \<Rightarrow> []
         | Some assets \<Rightarrow> map (\<lambda>asset. [''asset'', fst asset, Number_toString (snd asset)]) assets) @
        (case ip_settlement params of
           None \<Rightarrow> []
         | Some settlement \<Rightarrow> map (\<lambda>s. ''settlement'' # fst s # snd s) settlement) @
        (case ip_relays params of
           None \<Rightarrow> []
         | Some relays \<Rightarrow> map (\<lambda>relay. [''relay'', relay]) relays),
      t_content = []\<rparr>"

text \<open>An optional array of the parameters, read as the list of its elements: none when
  it was omitted.\<close>

definition or_empty :: "'a list option \<Rightarrow> 'a list" where
  "or_empty xs = (case xs of None \<Rightarrow> [] | Some ys \<Rightarrow> ys)"

text \<open>
  Payloads for the examples, and a text layer for them: the JSON text of each payload,
  written by \<open>ex_JSON_stringify\<close> and read back by \<open>ex_JSON_parse\<close>; every other text is
  refused.
\<close>

definition ex_info :: IlpPeerInfo where
  "ex_info =
     \<lparr>ilpAddress = ''g.seed'', btpEndpoint = ''wss://seed/btp'', settlementEngine = None,
      assetCode = ''USD'', assetScale = 6\<rparr>"

definition ex_info_xrp :: IlpPeerInfo where
  "ex_info_xrp =
     \<lparr>ilpAddress = ''g.example.connector'', btpEndpoint = ''wss://btp.example.com'',
      settlementEngine = Some ''xrp-paychan'', assetCode = ''XRP'', assetScale = 9\<rparr>"

definition ex_spsp_static :: SpspInfo where
  "ex_spsp_static =
     \<lparr>destinationAccount = ''g.example.receiver.alice'',
      sharedSecret = ''YmFzZTY0LWVuY29kZWQtc2VjcmV0''\<rparr>"

definition ex_quoted :: "string \<Rightarrow> string" where
  "ex_quoted s = CHR 0x22 # s @ [CHR 0x22]"

definition ex_member :: "string \<Rightarrow> string \<Rightarrow> string" where
  "ex_member k v = ex_quoted k @ '':'' @ v"

definition ex_documents :: "(json \<times> string) list" where
  "ex_documents =
     [(IlpPeerInfo_json ex_info,
       ''{'' @ ex_member ''ilpAddress'' (ex_quoted ''g.seed'') @ '','' @
         ex_member ''btpEndpoint'' (ex_quoted ''wss://seed/btp'') @ '','' @
         ex_member ''assetCode'' (ex_quoted ''USD'') @ '','' @
         ex_member ''assetScale'' ''6'' @ ''}''),
      (IlpPeerInfo_json ex_info_xrp,
       ''{'' @ ex_member ''ilpAddress'' (ex_quoted ''g.example.connector'') @ '','' @
         ex_member ''btpEndpoint'' (ex_quoted ''wss://btp.example.com'') @ '','' @
         ex_member ''settlementEngine'' (ex_quoted ''xrp-paychan'') @ '','' @
         ex_member ''assetCode'' (ex_quoted ''XRP'') @ '','' @
         ex_member ''assetScale'' ''9'' @ ''}''),
      (SpspInfo_json ex_spsp_static,
       ''{'' @ ex_member ''destinationAccount'' (ex_quoted ''g.example.receiver.alice'') @ '','' @
         ex_member ''sharedSecret'' (ex_quoted ''YmFzZTY0LWVuY29kZWQtc2VjcmV0'') @ ''}'')]"

definition ex_JSON_stringify :: "json \<Rightarrow> string" where
  "ex_JSON_stringify v = (case map_of ex_documents v of None \<Rightarrow> ''null'' | Some text \<Rightarrow> text)"

definition ex_JSON_parse :: "string \<Rightarrow> json option" where
  "ex_JSON_parse text = map_of (map (\<lambda>d. (snd d, fst d)) ex_documents) text"

section \<open>The bootstrap service (BootstrapService)\<close>

record KnownPeer =
  kp_pubkey :: string
  relayUrl :: string
  kp_btpEndpoint :: string

record BootstrapResult =
  knownPeer :: KnownPeer
  peerInfo :: IlpPeerInfo
  spspInfo :: SpspInfo




















section \<open>The event loop of the trust manager\<close>

text \<open>
  The methods of \<open>SocialTrustManager\<close> are asynchronous: a call runs until its next
  \<^verbatim>\<open>await\<close>, and other calls and the answers of the relays run in between. Here the
  manager is held with the calls in flight. The \<^verbatim>\<open>Set\<close> objects are held by reference,
  in \<open>lp_sets\<close>, since \<^verbatim>\<open>clearCache\<close> empties in place the set that \<open>myFollows\<close> refers
  to, which a call in flight may hold too; the set of \<open>myFollowers\<close> is referred to by
  its field alone and is held by value.
\<close>

text \<open>\<^verbatim>\<open>loadMyFollows\<close> inside \<^verbatim>\<open>initialize\<close>: \<^verbatim>\<open>getFollows\<close> awaits the query; its
  promise is rejected, or fulfilled with a set, and \<^verbatim>\<open>loadMyFollows\<close> is still suspended
  at its \<^verbatim>\<open>await\<close>; \<^verbatim>\<open>loadMyFollows\<close> has assigned and returned, or has thrown.\<close>

datatype follows_load = LF_query | LF_rejected js_error | LF_got nat | LF_done | LF_failed js_error

text \<open>\<^verbatim>\<open>loadMyFollowers\<close> inside \<^verbatim>\<open>initialize\<close>: it awaits the query, has assigned and
  returned, or has thrown.\<close>

datatype followers_load = LR_query | LR_done | LR_failed js_error

text \<open>
  A call in flight, by the \<^verbatim>\<open>await\<close> it is suspended at. Of \<^verbatim>\<open>computeTrust(peer)\<close>:
  \<^verbatim>\<open>getFollows\<close> of our own pubkey, called by \<^verbatim>\<open>loadMyFollows\<close>, awaits the query;
  \<^verbatim>\<open>getFollows\<close> has returned a set and \<^verbatim>\<open>loadMyFollows\<close> is suspended at its \<^verbatim>\<open>await\<close>;
  \<^verbatim>\<open>loadMyFollows\<close> has assigned and returned and \<^verbatim>\<open>computeTrust\<close> is suspended at its
  first \<^verbatim>\<open>await\<close>; \<^verbatim>\<open>getFollows(peer)\<close> awaits the query, the two flags read;
  \<^verbatim>\<open>getFollows(peer)\<close> has returned a set and \<^verbatim>\<open>computeTrust\<close> is suspended at its
  second \<^verbatim>\<open>await\<close>; \<^verbatim>\<open>computeTrust\<close> has returned or thrown (a rejection reaches it
  through awaits that touch no field). Of \<^verbatim>\<open>initialize()\<close>: its two loads and the
  promise of \<^verbatim>\<open>Promise.all\<close>, pending while \<open>None\<close>.
\<close>

datatype trust_call =
    CT_getMyFollows string
  | CT_loadMyFollows string nat
  | CT_loaded string
  | CT_getFollows string bool bool
  | CT_gotFollows string bool bool nat
  | CT_returned string "js_error + TrustScore"
  | Init follows_load followers_load "(js_error + unit) option"

record TrustManagerLoop =
  lp_myPubkey :: string
  lp_config :: TrustConfig
  lp_sets :: "string option list list"
  lp_myFollows :: nat
  lp_myFollowers :: "string list"
  lp_followGraphCache :: "string \<rightharpoonup> nat"
  lp_calls :: "trust_call list"

definition new_TrustManagerLoop :: "string \<Rightarrow> TrustConfig \<Rightarrow> TrustManagerLoop" where
  "new_TrustManagerLoop me cfg =
     \<lparr>lp_myPubkey = me, lp_config = cfg, lp_sets = [[]], lp_myFollows = 0,
      lp_myFollowers = [], lp_followGraphCache = Map.empty, lp_calls = []\<rparr>"

text \<open>The follow set \<^verbatim>\<open>getFollows\<close> builds from the answer of the relays.\<close>

definition follows_of :: "Event list \<Rightarrow> string option list" where
  "follows_of events =
     (case events of
        [] \<Rightarrow> []
      | e # es \<Rightarrow> Set_of (extractFollowedPubkeys (reduce_latest e es)))"

text \<open>\<^verbatim>\<open>getFollows\<close> after its \<^verbatim>\<open>await\<close>: a new set is stored under the pubkey, whatever
  the cache holds by then, and returned.\<close>

definition getFollows_store ::
  "string \<Rightarrow> Event list \<Rightarrow> TrustManagerLoop \<Rightarrow> nat \<times> TrustManagerLoop" where
  "getFollows_store pk events m =
     (length (lp_sets m),
      m\<lparr>lp_sets := lp_sets m @ [follows_of events],
        lp_followGraphCache := (lp_followGraphCache m)(pk \<mapsto> length (lp_sets m))\<rparr>)"

text \<open>\<^verbatim>\<open>computeTrust\<close> from the two flags to the \<^verbatim>\<open>await\<close> of \<^verbatim>\<open>getFollows(peer)\<close>, which
  returns the cached set when there is one and else sends the query.\<close>

definition computeTrust_flags :: "string \<Rightarrow> TrustManagerLoop \<Rightarrow> trust_call" where
  "computeTrust_flags peer m =
     (let isF = (Some peer \<in> set (lp_sets m ! lp_myFollows m));
          fU = (peer \<in> set (lp_myFollowers m))
      in case lp_followGraphCache m peer of
           Some a \<Rightarrow> CT_gotFollows peer isF fU a
         | None \<Rightarrow> CT_getFollows peer isF fU)"

text \<open>\<^verbatim>\<open>computeTrust\<close> up to its first \<^verbatim>\<open>await\<close>.\<close>

definition computeTrust_begin :: "string \<Rightarrow> TrustManagerLoop \<Rightarrow> trust_call" where
  "computeTrust_begin peer m =
     (if lp_sets m ! lp_myFollows m = []
      then (case lp_followGraphCache m (lp_myPubkey m) of
              Some a \<Rightarrow> CT_loadMyFollows peer a
            | None \<Rightarrow> CT_getMyFollows peer)
      else computeTrust_flags peer m)"

text \<open>\<^verbatim>\<open>computeTrust\<close> after its second \<^verbatim>\<open>await\<close>: the mutual followers are counted
  against \<open>myFollows\<close> as it is then.\<close>

definition computeTrust_end ::
  "string \<Rightarrow> bool \<Rightarrow> bool \<Rightarrow> nat \<Rightarrow> TrustManagerLoop \<Rightarrow> js_error + TrustScore" where
  "computeTrust_end peer isF fU a m =
     (let mutual = length (filter (\<lambda>p. p \<in> set (lp_sets m ! lp_myFollows m)) (lp_sets m ! a));
          cl = computeTrust_creditLimit (lp_config m) isF fU mutual
      in case computeTrust_score (lp_config m) cl of
           Inl err \<Rightarrow> Inl err
         | Inr sc \<Rightarrow>
             Inr \<lparr>ts_pubkey = peer, isFollowed = isF, followsUs = fU, mutualFollowers = mutual,
                  creditLimit = cl, score = sc\<rparr>)"

text \<open>\<^verbatim>\<open>initialize\<close> up to its \<^verbatim>\<open>await\<close>: both loads are started, \<^verbatim>\<open>loadMyFollows\<close>
  first.\<close>

definition initialize_begin :: "TrustManagerLoop \<Rightarrow> trust_call" where
  "initialize_begin m =
     Init (case lp_followGraphCache m (lp_myPubkey m) of Some a \<Rightarrow> LF_got a | None \<Rightarrow> LF_query)
       LR_query None"

text \<open>The promise of \<^verbatim>\<open>Promise.all\<close> after one of the two loads has moved: once settled
  it stays; it is rejected with the error of the load that throws first and fulfilled
  when both have returned.\<close>

definition promise_all ::
  "follows_load \<Rightarrow> followers_load \<Rightarrow> (js_error + unit) option \<Rightarrow> (js_error + unit) option" where
  "promise_all lf lr out =
     (case out of
        Some v \<Rightarrow> Some v
      | None \<Rightarrow>
          (case lf of
             LF_failed err \<Rightarrow> Some (Inl err)
           | _ \<Rightarrow>
               (case lr of
                  LR_failed err \<Rightarrow> Some (Inl err)
                | _ \<Rightarrow> if lf = LF_done \<and> lr = LR_done then Some (Inr ()) else None)))"

text \<open>The pool settles the query with filter \<open>f\<close> that a call awaits.\<close>

fun answer_call ::
  "Filter \<Rightarrow> js_error + Event list \<Rightarrow> trust_call \<Rightarrow> TrustManagerLoop
     \<Rightarrow> trust_call \<times> TrustManagerLoop" where
  "answer_call f ans (CT_getMyFollows peer) m =
     (if f \<noteq> follows_filter (lp_myPubkey m) then (CT_getMyFollows peer, m)
      else
        (case ans of
           Inl err \<Rightarrow> (CT_returned peer (Inl err), m)
         | Inr events \<Rightarrow>
             (CT_loadMyFollows peer (fst (getFollows_store (lp_myPubkey m) events m)),
              snd (getFollows_store (lp_myPubkey m) events m))))"
| "answer_call f ans (CT_getFollows peer isF fU) m =
     (if f \<noteq> follows_filter peer then (CT_getFollows peer isF fU, m)
      else
        (case ans of
           Inl err \<Rightarrow> (CT_returned peer (Inl err), m)
         | Inr events \<Rightarrow>
             (CT_gotFollows peer isF fU (fst (getFollows_store peer events m)),
              snd (getFollows_store peer events m))))"
| "answer_call f ans (Init lf lr out) m =
     (if lf = LF_query \<and> f = follows_filter (lp_myPubkey m)
      then
        (case ans of
           Inl err \<Rightarrow> (Init (LF_rejected err) lr out, m)
         | Inr events \<Rightarrow>
             (Init (LF_got (fst (getFollows_store (lp_myPubkey m) events m))) lr out,
              snd (getFollows_store (lp_myPubkey m) events m)))
      else if lr = LR_query \<and> f = followers_filter (lp_myPubkey m)
      then
        (case ans of
           Inl err \<Rightarrow> (Init lf (LR_failed err) (promise_all lf (LR_failed err) out), m)
         | Inr events \<Rightarrow>
             (Init lf LR_done (promise_all lf LR_done out),
              m\<lparr>lp_myFollowers := Set_of (map pubkey events)\<rparr>))
      else (Init lf lr out, m))"
| "answer_call f ans c m = (c, m)"

text \<open>A call that is suspended at the \<^verbatim>\<open>await\<close> of a settled promise goes on to its next
  \<^verbatim>\<open>await\<close>.\<close>

fun continue_call :: "trust_call \<Rightarrow> TrustManagerLoop \<Rightarrow> trust_call \<times> TrustManagerLoop" where
  "continue_call (CT_loadMyFollows peer a) m = (CT_loaded peer, m\<lparr>lp_myFollows := a\<rparr>)"
| "continue_call (CT_loaded peer) m = (computeTrust_flags peer m, m)"
| "continue_call (CT_gotFollows peer isF fU a) m =
     (CT_returned peer (computeTrust_end peer isF fU a m), m)"
| "continue_call (Init (LF_got a) lr out) m =
     (Init LF_done lr (promise_all LF_done lr out), m\<lparr>lp_myFollows := a\<rparr>)"
| "continue_call (Init (LF_rejected err) lr out) m =
     (Init (LF_failed err) lr (promise_all (LF_failed err) lr out), m)"
| "continue_call c m = (c, m)"

text \<open>
  The public methods of \<open>SocialTrustManager\<close>, the last one being a call of the trust
  calculator. What the event loop runs next: a caller invokes a method, which runs to its first
  \<^verbatim>\<open>await\<close> (\<^verbatim>\<open>clearCache\<close> and the trust calculator have none and run to their end); the
  pool settles the query of call \<open>i\<close>; call \<open>i\<close> is resumed. The order in which
  suspended calls are resumed is left open: every order is a schedule.
\<close>

datatype trust_op = ComputeTrust string | Initialize | Calculate string bool | ClearCache

datatype trust_event =
    Invoke trust_op
  | Answer nat Filter "js_error + Event list"
  | Continue nat

fun trust_loop :: "TrustManagerLoop \<Rightarrow> trust_event \<Rightarrow> TrustManagerLoop" where
  "trust_loop m (Invoke (ComputeTrust peer)) = m\<lparr>lp_calls := lp_calls m @ [computeTrust_begin peer m]\<rparr>"
| "trust_loop m (Invoke Initialize) = m\<lparr>lp_calls := lp_calls m @ [initialize_begin m]\<rparr>"
| "trust_loop m (Invoke (Calculate pk isF)) = m"
| "trust_loop m (Invoke ClearCache) =
     m\<lparr>lp_followGraphCache := Map.empty,
       lp_sets := (lp_sets m)[lp_myFollows m := []],
       lp_myFollowers := []\<rparr>"
| "trust_loop m (Answer i f ans) =
     (if i < length (lp_calls m)
      then (case answer_call f ans (lp_calls m ! i) m of
              (c, m') \<Rightarrow> m'\<lparr>lp_calls := (lp_calls m')[i := c]\<rparr>)
      else m)"
| "trust_loop m (Continue i) =
     (if i < length (lp_calls m)
      then (case continue_call (lp_calls m ! i) m of
              (c, m') \<Rightarrow> m'\<lparr>lp_calls := (lp_calls m')[i := c]\<rparr>)
      else m)"

definition trust_run :: "trust_event list \<Rightarrow> TrustManagerLoop \<Rightarrow> TrustManagerLoop" where
  "trust_run evs m = foldl trust_loop m evs"

text \<open>The manager as a caller sees it between two events: the sets by value. The
  trust calculator, called then, returns \<open>getTrustCalculator\<close> of it.\<close>

definition snapshot :: "TrustManagerLoop \<Rightarrow> SocialTrustManager" where
  "snapshot m =
     \<lparr>myPubkey = lp_myPubkey m, config = lp_config m,
      myFollows = lp_sets m ! lp_myFollows m, myFollowers = lp_myFollowers m,
      followGraphCache = (\<lambda>k. map_option (\<lambda>a. lp_sets m ! a) (lp_followGraphCache m k))\<rparr>"




text \<open>The set a call holds, if it holds one.\<close>

fun held_set :: "trust_call \<Rightarrow> nat option" where
  "held_set (CT_loadMyFollows peer a) = Some a"
| "held_set (CT_gotFollows peer isF fU a) = Some a"
| "held_set (Init (LF_got a) lr out) = Some a"
| "held_set c = None"

text \<open>Every reference is to a set that exists.\<close>

definition refs_ok :: "TrustManagerLoop \<Rightarrow> bool" where
  "refs_ok m =
     (lp_myFollows m < length (lp_sets m) \<and>
      (\<forall>a\<in>ran (lp_followGraphCache m). a < length (lp_sets m)) \<and>
      (\<forall>c\<in>set (lp_calls m). case held_set c of None \<Rightarrow> True | Some a \<Rightarrow> a < length (lp_sets m)))"









section \<open>The event loop of the SPSP client of the protocol package\<close>













text \<open>
  Runs of the trust manager for the examples. We follow bob and ten others; nobody is
  known to follow us at first. In \<open>ex_settled\<close> the manager is initialized and the score
  of bob computed. In \<open>ex_overlap\<close> two calls of \<^verbatim>\<open>computeTrust\<close> for bob are in flight
  together; the relays answer the second query with a newer follow list of bob. In
  \<open>ex_reload\<close> the score of bob is computed, \<^verbatim>\<open>initialize\<close> is called again when bob has
  come to follow us, and the score of bob is computed once more. In \<open>ex_later\<close>, which
  follows \<open>ex_settled\<close>, scores of carol and of bob are computed in overlapping calls,
  while bob has published a new follow list and has come to follow us.
\<close>

definition ex_initialized :: "trust_event list" where
  "ex_initialized =
     [Invoke Initialize,
      Answer 0 (follows_filter ''me'') (Inr [ex_follow_list ''me'' 100 (''bob'' # ex_friends)]),
      Answer 0 (followers_filter ''me'') (Inr []),
      Continue 0]"





definition ex_manager :: TrustManagerLoop where
  "ex_manager = new_TrustManagerLoop ''me'' DEFAULT_CONFIG"

definition ex_bob_score :: "int \<Rightarrow> bool \<Rightarrow> nat \<Rightarrow> js_error + TrustScore" where
  "ex_bob_score credit fU mutual =
     Inr \<lparr>ts_pubkey = ''bob'', isFollowed = True, followsUs = fU, mutualFollowers = mutual,
          creditLimit = credit, score = Finite (credit div 100)\<rparr>"



text \<open>
  A call of \<^verbatim>\<open>computeTrust\<close> that runs alone: it is invoked, its queries are answered by
  the pool, and it is resumed at each of its awaits, with no other event in between.
\<close>

definition computeTrust_alone :: "SimplePool \<Rightarrow> string \<Rightarrow> TrustManagerLoop \<Rightarrow> trust_event list" where
  "computeTrust_alone pool peer m =
     (let n = length (lp_calls m); me = lp_myPubkey m
      in Invoke (ComputeTrust peer) #
         (if lp_sets m ! lp_myFollows m = []
          then [Answer n (follows_filter me) (pool (follows_filter me)), Continue n, Continue n]
          else []) @
         [Answer n (follows_filter peer) (pool (follows_filter peer)), Continue n])"

section \<open>Properties of the trust computation\<close>

lemma sdiv_nonneg: "0 \<le> a \<Longrightarrow> 0 \<le> b \<Longrightarrow> (a::int) sdiv b = a div b"
  by (auto simp: signed_divide_int_def sgn_if)

lemma creditLimit_eq_spec:
  assumes "0 \<le> baseCreditForFollowed cfg"
  shows "computeTrust_creditLimit cfg isF fU n = spec_creditLimit cfg isF fU n"
  using assms
  by (auto simp: computeTrust_creditLimit_def spec_creditLimit_def Let_def sdiv_nonneg min_def)

lemma spec_creditLimit_bounds:
  assumes "0 \<le> baseCreditForFollowed cfg" "0 \<le> mutualFollowerBonus cfg"
    "0 \<le> maxMutualBonus cfg" "0 \<le> baseCreditForUnfollowed cfg" "0 < maxCreditLimit cfg"
  shows "0 \<le> spec_creditLimit cfg isF fU n \<and> spec_creditLimit cfg isF fU n \<le> maxCreditLimit cfg"
  using assms by (auto simp: spec_creditLimit_def Let_def min_def)

lemma Number_of_bigint_small: "\<bar>x\<bar> < 2 ^ 53 \<Longrightarrow> Number_of_bigint x = Finite x"
  by (simp add: Number_of_bigint_def)

lemma score_eq_spec:
  assumes "0 \<le> cl" "cl \<le> maxCreditLimit cfg" "0 < maxCreditLimit cfg"
  shows "computeTrust_score cfg cl = Inr (Finite (spec_score cfg cl))"
proof -
  let ?m = "maxCreditLimit cfg"
  have q: "(cl * 100) sdiv ?m = cl * 100 div ?m"
    using assms by (simp add: sdiv_nonneg)
  have "cl * 100 \<le> 100 * ?m" using assms by simp
  then have "cl * 100 div ?m \<le> 100 * ?m div ?m"
    using assms(3) by (intro zdiv_mono1) simp_all
  then have "cl * 100 div ?m \<le> 100"
    using assms(3) by simp
  moreover have "0 \<le> cl * 100 div ?m"
    using assms by (simp add: pos_imp_zdiv_nonneg_iff)
  ultimately have "\<bar>cl * 100 div ?m\<bar> < 2 ^ 53" by simp
  then show ?thesis
    using assms(3) q
    by (simp add: computeTrust_score_def bigint_div_def spec_score_def Number_of_bigint_small)
qed

lemma getFollows_frame:
  "getFollows pool pk s = (r, s') \<Longrightarrow>
     config s' = config s \<and> myPubkey s' = myPubkey s \<and> myFollows s' = myFollows s \<and>
     myFollowers s' = myFollowers s"
  by (auto simp: getFollows_def Let_def split: option.splits sum.splits list.splits)

lemma loadMyFollows_frame:
  "loadMyFollows pool s = (r, s') \<Longrightarrow>
     config s' = config s \<and> myPubkey s' = myPubkey s \<and> myFollowers s' = myFollowers s"
  by (auto simp: loadMyFollows_def split: prod.splits sum.splits dest: getFollows_frame)

lemma computeTrust_result:
  assumes "computeTrust pool peer s = (Inr r, s')"
  shows "config s' = config s \<and>
         creditLimit r =
           computeTrust_creditLimit (config s) (isFollowed r) (followsUs r) (mutualFollowers r) \<and>
         computeTrust_score (config s) (creditLimit r) = Inr (score r)"
  using assms unfolding computeTrust_def
  by (auto simp: Let_def split: if_splits prod.splits sum.splits
      dest!: getFollows_frame loadMyFollows_frame)

lemma getFollows_total:
  "\<forall>f. \<exists>evs. pool f = Inr evs \<Longrightarrow> \<exists>fs s'. getFollows pool pk s = (Inr fs, s')"
  apply (auto simp: getFollows_def Let_def split: option.splits sum.splits list.splits)
  by (metis Inl_Inr_False)

lemma loadMyFollows_total:
  "\<forall>f. \<exists>evs. pool f = Inr evs \<Longrightarrow> \<exists>s'. loadMyFollows pool s = (Inr (), s')"
  using getFollows_total[of pool "myPubkey s" s] by (auto simp: loadMyFollows_def)

lemma computeTrust_total:
  assumes "\<forall>f. \<exists>evs. pool f = Inr evs" "maxCreditLimit (config s) \<noteq> 0"
  shows "\<exists>r s'. computeTrust pool peer s = (Inr r, s')"
proof -
  obtain s1 where
    s1: "(if myFollows s = [] then loadMyFollows pool s else (Inr (), s)) = (Inr (), s1)"
    using loadMyFollows_total[OF assms(1), of s] by (cases "myFollows s = []") auto
  then have c1: "config s1 = config s"
    by (auto split: if_splits dest: loadMyFollows_frame)
  obtain fs s2 where s2: "getFollows pool peer s1 = (Inr fs, s2)"
    using getFollows_total[OF assms(1)] by blast
  then have c2: "config s2 = config s" using c1 by (auto dest: getFollows_frame)
  show ?thesis
    unfolding computeTrust_def s1 using s2 c2 assms(2)
    by (simp add: Let_def computeTrust_score_def bigint_div_def)
qed

text \<open>
  C1. For a configuration of non-negative credits with a positive maximum (the credit
  limit of the specification is unsigned, and its score formula divides by the maximum),
  for every pair of flags and every count of mutual followers: the credit limit the code
  computes is base + min(count * mutualFollowerBonus, maxMutualBonus) + (base/2 when
  followed and followed back), clamped to maxCreditLimit, and the score is
  floor(creditLimit * 100 / maxCreditLimit), in unbounded integers. Every score that
  \<open>computeTrust\<close> returns carries these two values for its own flags and count, and
  \<open>computeTrust\<close> returns one whenever the relay queries answer.
\<close>

theorem computeTrust_matches_spec:
  assumes "0 \<le> baseCreditForFollowed cfg" "0 \<le> mutualFollowerBonus cfg"
    "0 \<le> maxMutualBonus cfg" "0 \<le> baseCreditForUnfollowed cfg" "0 < maxCreditLimit cfg"
  shows "computeTrust_creditLimit cfg isF fU n = spec_creditLimit cfg isF fU n \<and>
         computeTrust_score cfg (computeTrust_creditLimit cfg isF fU n) =
           Inr (Finite (spec_score cfg (spec_creditLimit cfg isF fU n))) \<and>
         (config s = cfg \<and> computeTrust pool peer s = (Inr r, s') \<longrightarrow>
            creditLimit r =
              spec_creditLimit cfg (isFollowed r) (followsUs r) (mutualFollowers r) \<and>
            score r = Finite (spec_score cfg (creditLimit r))) \<and>
         (config s = cfg \<and> (\<forall>f. \<exists>evs. pool f = Inr evs) \<longrightarrow>
            (\<exists>r s'. computeTrust pool peer s = (Inr r, s')))"
proof -
  have eq: "\<And>a b k. computeTrust_creditLimit cfg a b k = spec_creditLimit cfg a b k"
    using assms(1) by (rule creditLimit_eq_spec)
  have sc: "\<And>a b k. computeTrust_score cfg (spec_creditLimit cfg a b k) =
              Inr (Finite (spec_score cfg (spec_creditLimit cfg a b k)))"
    using spec_creditLimit_bounds[OF assms] assms(5) by (intro score_eq_spec) auto
  have run: "creditLimit r =
               spec_creditLimit cfg (isFollowed r) (followsUs r) (mutualFollowers r) \<and>
             score r = Finite (spec_score cfg (creditLimit r))"
    if "config s = cfg" "computeTrust pool peer s = (Inr r, s')"
    using computeTrust_result[OF that(2)] that(1) eq sc by auto
  have tot: "\<exists>r s'. computeTrust pool peer s = (Inr r, s')"
    if "config s = cfg" "\<forall>f. \<exists>evs. pool f = Inr evs"
    using computeTrust_total[OF that(2), of s peer] that(1) assms(5) by simp
  show ?thesis using eq sc run tot by simp
qed

theorem computeTrust_matches_spec_witness:
  "computeTrust_creditLimit DEFAULT_CONFIG True False 10 = 1500 \<and>
   computeTrust_score DEFAULT_CONFIG (computeTrust_creditLimit DEFAULT_CONFIG True False 10) =
     Inr (Finite 15) \<and>
   fst (computeTrust ex_pool ''bob'' (new_SocialTrustManager ''me'' DEFAULT_CONFIG)) =
     Inr \<lparr>ts_pubkey = ''bob'', isFollowed = True, followsUs = False, mutualFollowers = 10,
          creditLimit = 1500, score = Finite 15\<rparr>"
proof -
  have h: "0 \<le> baseCreditForFollowed DEFAULT_CONFIG" "0 \<le> mutualFollowerBonus DEFAULT_CONFIG"
    "0 \<le> maxMutualBonus DEFAULT_CONFIG" "0 \<le> baseCreditForUnfollowed DEFAULT_CONFIG"
    "0 < maxCreditLimit DEFAULT_CONFIG"
    by (simp_all add: DEFAULT_CONFIG_def)
  have spec: "spec_creditLimit DEFAULT_CONFIG True False 10 = 1500"
    "spec_score DEFAULT_CONFIG 1500 = 15"
    by (simp_all add: spec_creditLimit_def spec_score_def DEFAULT_CONFIG_def)
  have run: "fst (computeTrust ex_pool ''bob'' (new_SocialTrustManager ''me'' DEFAULT_CONFIG)) =
     Inr \<lparr>ts_pubkey = ''bob'', isFollowed = True, followsUs = False, mutualFollowers = 10,
          creditLimit = 1500, score = Finite 15\<rparr>"
    by code_simp
  note t = computeTrust_matches_spec[OF h, where isF = True and fU = False and n = 10
        and s = "new_SocialTrustManager ''me'' DEFAULT_CONFIG" and pool = ex_pool
        and peer = "''bob''" and s' = "new_SocialTrustManager ''me'' DEFAULT_CONFIG"
        and r = "\<lparr>ts_pubkey = ''bob'', isFollowed = True, followsUs = False,
          mutualFollowers = 10, creditLimit = 1500, score = Finite 15\<rparr>"]
  have a: "computeTrust_creditLimit DEFAULT_CONFIG True False 10 = 1500"
    using t[THEN conjunct1] spec(1) by simp
  have b: "computeTrust_score DEFAULT_CONFIG
             (computeTrust_creditLimit DEFAULT_CONFIG True False 10) = Inr (Finite 15)"
    using t[THEN conjunct2, THEN conjunct1] spec by simp
  show ?thesis
    by (rule conjI[OF a conjI[OF b run]])
qed

text \<open>
  C10. The synchronous calculator of \<open>getTrustCalculator\<close> gives exactly
  baseCreditForUnfollowed when it is called with isFollowed = false, whatever the pubkey,
  the follower set and the cached follow graph hold; \<open>computeTrust\<close> adds the capped
  mutual-follower bonus to that base for a subject we do not follow (and clamps the sum).
\<close>

theorem getTrustCalculator_unfollowed:
  "getTrustCalculator s pk False = baseCreditForUnfollowed (config s) \<and>
   computeTrust_creditLimit cfg False fU n =
     min (baseCreditForUnfollowed cfg + min (int n * mutualFollowerBonus cfg) (maxMutualBonus cfg))
         (maxCreditLimit cfg) \<and>
   (computeTrust pool pk s = (Inr r, s') \<and> \<not> isFollowed r \<longrightarrow>
      creditLimit r =
        min (baseCreditForUnfollowed (config s) +
             min (int (mutualFollowers r) * mutualFollowerBonus (config s))
                 (maxMutualBonus (config s)))
            (maxCreditLimit (config s)))"
proof -
  have a: "getTrustCalculator s pk False = baseCreditForUnfollowed (config s)"
    by (simp add: getTrustCalculator_def)
  have b: "\<And>c k. computeTrust_creditLimit c False fU k =
     min (baseCreditForUnfollowed c + min (int k * mutualFollowerBonus c) (maxMutualBonus c))
         (maxCreditLimit c)"
    by (auto simp: computeTrust_creditLimit_def Let_def min_def)
  have c: "creditLimit r =
        min (baseCreditForUnfollowed (config s) +
             min (int (mutualFollowers r) * mutualFollowerBonus (config s))
                 (maxMutualBonus (config s)))
            (maxCreditLimit (config s))"
    if "computeTrust pool pk s = (Inr r, s')" "\<not> isFollowed r"
  proof -
    have "creditLimit r = computeTrust_creditLimit (config s) False (followsUs r) (mutualFollowers r)"
      using computeTrust_result[OF that(1)] that(2) by simp
    also have "\<dots> = min (baseCreditForUnfollowed (config s) +
             min (int (mutualFollowers r) * mutualFollowerBonus (config s))
                 (maxMutualBonus (config s)))
            (maxCreditLimit (config s))"
      by (auto simp: computeTrust_creditLimit_def Let_def min_def)
    finally show ?thesis .
  qed
  show ?thesis using a b c by simp
qed

theorem getTrustCalculator_unfollowed_witness:
  "getTrustCalculator
      (snd (computeTrust ex_pool ''carol'' (new_SocialTrustManager ''me'' DEFAULT_CONFIG)))
      ''carol'' False = 0 \<and>
   fst (computeTrust ex_pool ''carol'' (new_SocialTrustManager ''me'' DEFAULT_CONFIG)) =
     Inr \<lparr>ts_pubkey = ''carol'', isFollowed = False, followsUs = False, mutualFollowers = 2,
          creditLimit = 200, score = Finite 2\<rparr>"
proof -
  let ?run = "computeTrust ex_pool ''carol'' (new_SocialTrustManager ''me'' DEFAULT_CONFIG)"
  let ?r = "\<lparr>ts_pubkey = ''carol'', isFollowed = False, followsUs = False, mutualFollowers = 2,
          creditLimit = 200, score = Finite 2\<rparr>"
  have run: "fst ?run = Inr ?r"
    by code_simp
  then have pair: "?run = (Inr ?r, snd ?run)"
    by (metis prod.collapse)
  have cfg: "baseCreditForUnfollowed (config (snd ?run)) = 0"
    using computeTrust_result[OF pair]
    by (simp add: new_SocialTrustManager_def DEFAULT_CONFIG_def)
  show ?thesis
    using getTrustCalculator_unfollowed[where s = "snd ?run" and pk = "''carol''"
        and cfg = DEFAULT_CONFIG and fU = False and n = 2 and pool = ex_pool and r = ?r
        and s' = "snd ?run"] run cfg
    by simp
qed

section \<open>Latest-record resolution\<close>

lemma reduce_latest_snoc: "reduce_latest e (es @ [x]) = newer_of (reduce_latest e es) x"
  by (simp add: reduce_latest_def)

lemma filter_snoc_Cons:
  "filter P (e # es @ [x]) = filter P (e # es) @ (if P x then [x] else [])"
  by simp

lemma reduce_latest_char:
  "reduce_latest e es \<in> set (e # es) \<and> newest_in (e # es) (reduce_latest e es) \<and>
   reduce_latest e es = last (filter (newest_in (e # es)) (e # es))"
proof (induction es rule: rev_induct)
  case Nil
  show ?case by (simp add: reduce_latest_def newest_in_def)
next
  case (snoc x es)
  let ?r = "reduce_latest e es"
  let ?old = "e # es" and ?new = "e # es @ [x]"
  from snoc have rin: "?r \<in> set ?old" and rmax: "newest_in ?old ?r"
    and rlast: "?r = last (filter (newest_in ?old) ?old)" by blast+
  have setnew: "set ?new = insert x (set ?old)" by auto
  show ?case
  proof (cases "created_at ?r > created_at x")
    case True
    then have res: "reduce_latest e (es @ [x]) = ?r"
      by (simp add: reduce_latest_snoc newer_of_def)
    have nx: "\<not> newest_in ?new x"
      unfolding newest_in_def setnew using True rin by force
    have same: "newest_in ?new y = newest_in ?old y" if "y \<in> set ?old" for y
      unfolding newest_in_def setnew using True rin rmax that
      by (fastforce simp: newest_in_def)
    have feq: "filter (newest_in ?new) ?new = filter (newest_in ?old) ?old"
    proof -
      have "filter (newest_in ?new) ?new = filter (newest_in ?new) ?old"
        unfolding filter_snoc_Cons using nx by simp
      also have "\<dots> = filter (newest_in ?old) ?old"
        by (rule filter_cong[OF refl]) (use same in blast)
      finally show ?thesis .
    qed
    have c1: "?r \<in> set ?new" using rin unfolding setnew by blast
    have c2: "newest_in ?new ?r" using same[OF rin] rmax by blast
    have c3: "?r = last (filter (newest_in ?new) ?new)" unfolding feq by (rule rlast)
    show ?thesis unfolding res using c1 c2 c3 by blast
  next
    case False
    then have res: "reduce_latest e (es @ [x]) = x"
      by (simp add: reduce_latest_snoc newer_of_def)
    have nx: "newest_in ?new x"
      unfolding newest_in_def setnew using False rmax by (fastforce simp: newest_in_def)
    have c1: "x \<in> set ?new" unfolding setnew by blast
    have c3: "x = last (filter (newest_in ?new) ?new)"
      unfolding filter_snoc_Cons using nx by simp
    show ?thesis unfolding res using c1 nx c3 by blast
  qed
qed

lemma reduce_latest_unique:
  assumes "m \<in> set (e # es)" "\<forall>x\<in>set (e # es). x \<noteq> m \<longrightarrow> created_at x < created_at m"
  shows "reduce_latest e es = m"
proof -
  let ?r = "reduce_latest e es"
  have "?r \<in> set (e # es)" "newest_in (e # es) ?r"
    using reduce_latest_char[of e es] by blast+
  then have "created_at m \<le> created_at ?r" "?r \<in> set (e # es)"
    using assms(1) unfolding newest_in_def by blast+
  then show ?thesis using assms(2) by force
qed

lemma eventsByPubkey_snoc: "eventsByPubkey (evs @ [x]) = keep_newest (eventsByPubkey evs) x"
  by (simp add: eventsByPubkey_def)

lemma first_newest_SomeD:
  assumes "first_newest xs = Some x"
  shows "x \<in> set xs \<and> newest_in xs x"
proof -
  from assms obtain r where "filter (newest_in xs) xs = x # r"
    by (auto simp: first_newest_def split: list.splits)
  then have "x \<in> set (filter (newest_in xs) xs)" by simp
  then show ?thesis by simp
qed

lemma first_newest_None: "first_newest xs = None \<longleftrightarrow> xs = []"
proof
  assume n: "first_newest xs = None"
  show "xs = []"
  proof (rule ccontr)
    assume "xs \<noteq> []"
    then obtain e es where xs: "xs = e # es" by (cases xs) auto
    have "reduce_latest e es \<in> set (e # es)" "newest_in (e # es) (reduce_latest e es)"
      using reduce_latest_char[of e es] by blast+
    then have "reduce_latest e es \<in> set (filter (newest_in xs) xs)"
      unfolding xs by (simp only: set_filter mem_Collect_eq) 
    moreover have "filter (newest_in xs) xs = []"
      using n by (auto simp: first_newest_def split: list.splits)
    ultimately show False by simp
  qed
qed (simp add: first_newest_def)


lemma first_newest_snoc:
  "first_newest (g @ [x]) =
     (case first_newest g of
        None \<Rightarrow> Some x
      | Some ex \<Rightarrow> if created_at x > created_at ex then Some x else Some ex)"
proof (cases "first_newest g")
  case None
  then have "g = []" by (simp add: first_newest_None)
  then show ?thesis using None by (simp add: first_newest_def newest_in_def)
next
  case (Some ex)
  then obtain r where f: "filter (newest_in g) g = ex # r"
    by (auto simp: first_newest_def split: list.splits)
  from Some have exin: "ex \<in> set g" and exmax: "newest_in g ex"
    using first_newest_SomeD by blast+
  show ?thesis
  proof (cases "created_at x > created_at ex")
    case True
    have "\<not> newest_in (g @ [x]) y" if "y \<in> set g" for y
      using that True exmax unfolding newest_in_def by force
    then have "filter (newest_in (g @ [x])) g = []"
      by (simp add: filter_empty_conv)
    moreover have "newest_in (g @ [x]) x"
      using True exmax unfolding newest_in_def by force
    ultimately show ?thesis using Some True by (simp add: first_newest_def)
  next
    case False
    have "newest_in (g @ [x]) y = newest_in g y" if "y \<in> set g" for y
      using that False exmax exin unfolding newest_in_def by force
    then have "filter (newest_in (g @ [x])) g = filter (newest_in g) g"
      by (intro filter_cong[OF refl]) blast
    then show ?thesis using Some False f by (simp add: first_newest_def)
  qed
qed

lemma eventsByPubkey_char:
  "map_of (eventsByPubkey evs) p = first_newest (filter (\<lambda>x. pubkey x = p) evs)"
proof (induction evs arbitrary: p rule: rev_induct)
  case Nil
  show ?case by (simp add: eventsByPubkey_def first_newest_def)
next
  case (snoc x evs)
  show ?case
  proof (cases "pubkey x = p")
    case True
    show ?thesis
      unfolding eventsByPubkey_snoc keep_newest_def
      using True snoc[of p]
      by (simp add: first_newest_snoc update_conv' split: option.splits)
  next
    case False
    then show ?thesis
      unfolding eventsByPubkey_snoc keep_newest_def
      using snoc[of p]
      by (simp add: update_conv' split: option.splits)
  qed
qed

lemma distinct_keep_newest: "distinct (map fst m) \<Longrightarrow> distinct (map fst (keep_newest m x))"
  by (simp add: keep_newest_def distinct_update split: option.splits)

lemma distinct_eventsByPubkey: "distinct (map fst (eventsByPubkey evs))"
  by (induction evs rule: rev_induct) (simp_all add: eventsByPubkey_def distinct_keep_newest)


lemma first_newest_unique:
  assumes "m \<in> set g" "\<forall>x\<in>set g. x \<noteq> m \<longrightarrow> created_at x < created_at m"
  shows "first_newest g = Some m"
proof -
  have "g \<noteq> []" using assms(1) by auto
  then obtain y where y: "first_newest g = Some y"
    using first_newest_None[of g] by (cases "first_newest g") auto
  then have "y \<in> set g" "newest_in g y" using first_newest_SomeD by blast+
  then have "y = m" using assms unfolding newest_in_def by force
  then show ?thesis using y by simp
qed

text \<open>
  C4 (as amended). For every non-empty list of records, the reduce of \<open>getFollows\<close>
  returns a record of the list that no record of the list is newer than: the last of the
  newest ones in input order. The grouping of \<open>discoverPeers\<close> keeps for every author
  the first of the author's newest records. When one record is strictly newer than all
  the others the result is that record for every ordering of the same records, the
  reverse order included. (When several records share the newest timestamp the selection
  follows the input order: see the counterexample.)
\<close>

theorem resolve_latest_maximal:
  "reduce_latest e es \<in> set (e # es) \<and>
   (\<forall>x\<in>set (e # es). created_at x \<le> created_at (reduce_latest e es)) \<and>
   reduce_latest e es = last (filter (newest_in (e # es)) (e # es)) \<and>
   map_of (eventsByPubkey evs) p = first_newest (filter (\<lambda>x. pubkey x = p) evs) \<and>
   (m \<in> set (e # es) \<and> (\<forall>x\<in>set (e # es). x \<noteq> m \<longrightarrow> created_at x < created_at m) \<longrightarrow>
      reduce_latest e es = m \<and>
      (mset (f # fs) = mset (e # es) \<longrightarrow> reduce_latest f fs = m) \<and>
      (rev (e # es) = f # fs \<longrightarrow> reduce_latest f fs = m)) \<and>
   (m \<in> set evs \<and>
    (\<forall>x\<in>set evs. pubkey x = pubkey m \<and> x \<noteq> m \<longrightarrow> created_at x < created_at m) \<longrightarrow>
      map_of (eventsByPubkey evs) (pubkey m) = Some m \<and>
      (mset evs' = mset evs \<longrightarrow> map_of (eventsByPubkey evs') (pubkey m) = Some m))"
proof -
  note c = reduce_latest_char[of e es]
  have a: "\<forall>x\<in>set (e # es). created_at x \<le> created_at (reduce_latest e es)"
    using c unfolding newest_in_def by blast
  have u: "reduce_latest f fs = m"
    if "m \<in> set (e # es)" "\<forall>x\<in>set (e # es). x \<noteq> m \<longrightarrow> created_at x < created_at m"
       "set (f # fs) = set (e # es)" for f fs
    using reduce_latest_unique[of m f fs] that by metis
  have u1: "reduce_latest f fs = m"
    if "m \<in> set (e # es)" "\<forall>x\<in>set (e # es). x \<noteq> m \<longrightarrow> created_at x < created_at m"
       "mset (f # fs) = mset (e # es)"
    using u[OF that(1,2)] mset_eq_setD[OF that(3)] by blast
  have u2: "reduce_latest f fs = m"
    if "m \<in> set (e # es)" "\<forall>x\<in>set (e # es). x \<noteq> m \<longrightarrow> created_at x < created_at m"
       "rev (e # es) = f # fs"
  proof -
    have "set (f # fs) = set (e # es)" using that(3) by (metis set_rev)
    then show ?thesis using u[OF that(1,2)] by blast
  qed
  have g: "map_of (eventsByPubkey zs) (pubkey m) = Some m"
    if "m \<in> set evs"
       "\<forall>x\<in>set evs. pubkey x = pubkey m \<and> x \<noteq> m \<longrightarrow> created_at x < created_at m"
       "set zs = set evs" for zs
    unfolding eventsByPubkey_char
    by (rule first_newest_unique) (use that in auto)
  have g2: "map_of (eventsByPubkey evs') (pubkey m) = Some m"
    if "m \<in> set evs"
       "\<forall>x\<in>set evs. pubkey x = pubkey m \<and> x \<noteq> m \<longrightarrow> created_at x < created_at m"
       "mset evs' = mset evs"
    using g[OF that(1,2)] mset_eq_setD[OF that(3)] by blast
  have p5: "m \<in> set (e # es) \<and> (\<forall>x\<in>set (e # es). x \<noteq> m \<longrightarrow> created_at x < created_at m) \<longrightarrow>
      reduce_latest e es = m \<and>
      (mset (f # fs) = mset (e # es) \<longrightarrow> reduce_latest f fs = m) \<and>
      (rev (e # es) = f # fs \<longrightarrow> reduce_latest f fs = m)"
    using u[of e es] u1 u2 by blast
  have p6: "m \<in> set evs \<and>
    (\<forall>x\<in>set evs. pubkey x = pubkey m \<and> x \<noteq> m \<longrightarrow> created_at x < created_at m) \<longrightarrow>
      map_of (eventsByPubkey evs) (pubkey m) = Some m \<and>
      (mset evs' = mset evs \<longrightarrow> map_of (eventsByPubkey evs') (pubkey m) = Some m)"
    using g[of evs] g2 by blast
  show ?thesis
    using conjunct1[OF c] a conjunct2[OF conjunct2[OF c]] eventsByPubkey_char[of evs p] p5 p6
    by (intro conjI)
qed

text \<open>
  Two follow lists of one author with the same timestamp: the reduce returns the second
  of the two in either order, the grouping the first, so a permutation of the input
  changes the record that is selected.
\<close>

theorem resolve_latest_tie_counterexample:
  "pubkey (ex_event ''a'' ''alice'' 5) = pubkey (ex_event ''b'' ''alice'' 5) \<and>
   kind (ex_event ''a'' ''alice'' 5) = kind (ex_event ''b'' ''alice'' 5) \<and>
   created_at (ex_event ''a'' ''alice'' 5) = created_at (ex_event ''b'' ''alice'' 5) \<and>
   mset [ex_event ''a'' ''alice'' 5, ex_event ''b'' ''alice'' 5] =
     mset [ex_event ''b'' ''alice'' 5, ex_event ''a'' ''alice'' 5] \<and>
   reduce_latest (ex_event ''a'' ''alice'' 5) [ex_event ''b'' ''alice'' 5] \<noteq>
     reduce_latest (ex_event ''b'' ''alice'' 5) [ex_event ''a'' ''alice'' 5] \<and>
   map_of (eventsByPubkey [ex_event ''a'' ''alice'' 5, ex_event ''b'' ''alice'' 5]) ''alice'' \<noteq>
     map_of (eventsByPubkey [ex_event ''b'' ''alice'' 5, ex_event ''a'' ''alice'' 5]) ''alice''"
  by (simp add: ex_event_def reduce_latest_def newer_of_def eventsByPubkey_def keep_newest_def)

theorem resolve_latest_maximal_witness:
  "reduce_latest (ex_event ''1'' ''alice'' 1) [ex_event ''2'' ''alice'' 2, ex_event ''3'' ''alice'' 3] =
     ex_event ''3'' ''alice'' 3 \<and>
   reduce_latest (ex_event ''3'' ''alice'' 3) [ex_event ''2'' ''alice'' 2, ex_event ''1'' ''alice'' 1] =
     ex_event ''3'' ''alice'' 3 \<and>
   map_of (eventsByPubkey
      [ex_event ''3'' ''alice'' 3, ex_event ''2'' ''alice'' 2, ex_event ''1'' ''alice'' 1]) ''alice'' =
     Some (ex_event ''3'' ''alice'' 3)"
proof -
  let ?e1 = "ex_event ''1'' ''alice'' 1" and ?e2 = "ex_event ''2'' ''alice'' 2"
    and ?e3 = "ex_event ''3'' ''alice'' 3"
  note t = resolve_latest_maximal[where e = ?e1 and es = "[?e2, ?e3]" and m = ?e3
      and f = ?e3 and fs = "[?e2, ?e1]" and evs = "[?e1, ?e2, ?e3]"
      and evs' = "[?e3, ?e2, ?e1]" and p = "''alice''"]
  have h1: "?e3 \<in> set [?e1, ?e2, ?e3]" by simp
  have h2: "\<forall>x\<in>set [?e1, ?e2, ?e3]. x \<noteq> ?e3 \<longrightarrow> created_at x < created_at ?e3"
    by (simp add: ex_event_def)
  have h3: "mset [?e3, ?e2, ?e1] = mset [?e1, ?e2, ?e3]" by simp
  have h4: "\<forall>x\<in>set [?e1, ?e2, ?e3]. pubkey x = pubkey ?e3 \<and> x \<noteq> ?e3 \<longrightarrow>
              created_at x < created_at ?e3"
    by (simp add: ex_event_def)
  have p: "pubkey ?e3 = ''alice''" by (simp add: ex_event_def)
  have t5: "reduce_latest ?e1 [?e2, ?e3] = ?e3 \<and>
      (mset [?e3, ?e2, ?e1] = mset [?e1, ?e2, ?e3] \<longrightarrow> reduce_latest ?e3 [?e2, ?e1] = ?e3)"
    using t[THEN conjunct2, THEN conjunct2, THEN conjunct2, THEN conjunct2, THEN conjunct1]
      h1 h2 by blast
  have t6: "mset [?e3, ?e2, ?e1] = mset [?e1, ?e2, ?e3] \<longrightarrow>
      map_of (eventsByPubkey [?e3, ?e2, ?e1]) (pubkey ?e3) = Some ?e3"
    using t[THEN conjunct2, THEN conjunct2, THEN conjunct2, THEN conjunct2, THEN conjunct2]
      h1 h4 by blast
  show ?thesis using t5 t6 h3 p by simp
qed

section \<open>Peer discovery\<close>

lemma map_of_foldl_parse_into:
  "distinct (map fst m) \<Longrightarrow>
   map_of (foldl (parse_into parse) [] m) a =
     (case map_of m a of None \<Rightarrow> None
      | Some ev \<Rightarrow> (case parse ev of Inl _ \<Rightarrow> None | Inr info \<Rightarrow> Some info))"
proof (induction m rule: rev_induct)
  case Nil
  then show ?case by simp
next
  case (snoc x m)
  obtain k ev where x: "x = (k, ev)" by (cases x)
  from snoc.prems have d: "distinct (map fst m)" and k: "k \<notin> fst ` set m" by (auto simp: x)
  have mk: "map_of m k = None" using k by (simp add: map_of_eq_None_iff)
  show ?case
  proof (cases "a = k")
    case True
    then show ?thesis using snoc.IH[OF d] mk
      by (simp add: x parse_into_def update_conv' map_add_def split: sum.splits option.splits)
  next
    case False
    then show ?thesis using snoc.IH[OF d]
      by (simp add: x parse_into_def update_conv' map_add_def split: sum.splits option.splits)
  qed
qed

lemma distinct_foldl_parse_into: "distinct (map fst (foldl (parse_into parse) [] m))"
proof (induction m rule: rev_induct)
  case Nil then show ?case by simp
next
  case (snoc x m)
  then show ?case by (simp add: parse_into_def distinct_update split: sum.splits)
qed


lemma sub_onevent_cases:
  "sub_onevent parse ev sub =
     (if isUnsubscribed sub \<or> created_at ev \<le> lastSeen_of sub (pubkey ev) then (sub, [])
      else (sub\<lparr>peerTimestamps := (peerTimestamps sub)(pubkey ev \<mapsto> created_at ev)\<rparr>,
            case parse ev of Inl _ \<Rightarrow> [] | Inr info \<Rightarrow> [(pubkey ev, info)]))"
  by (simp add: sub_onevent_def lastSeen_of_def Let_def)

lemma deliver_other:
  "i \<noteq> j \<Longrightarrow> j < length subs \<Longrightarrow> fst (deliver parse i ev subs) ! j = subs ! j"
  by (simp add: deliver_def)

lemma service_onevent_cases:
  "service_onevent parseInt10 ev s =
     (case parseIlpPeerInfo_legacy parseInt10 ev of
        None \<Rightarrow> (s, [])
      | Some info \<Rightarrow>
          (if (case cachedAt s (pubkey ev) of None \<Rightarrow> True | Some t \<Rightarrow> t < created_at ev)
           then (s\<lparr>peerInfoCache := (peerInfoCache s)(pubkey ev \<mapsto> info)\<rparr>, [info])
           else (s, [])))"
proof (cases "parseIlpPeerInfo_legacy parseInt10 ev")
  case None
  then show ?thesis by (simp add: service_onevent_def)
next
  case (Some info)
  then have pk: "pi_pubkey info = pubkey ev" and ca: "pi_createdAt info = created_at ev"
    by (auto simp: parseIlpPeerInfo_legacy_def split: if_splits option.splits)
  show ?thesis
    using Some pk ca
    by (auto simp: service_onevent_def cachedAt_def split: option.splits)
qed

lemma parse_legacy_createdAt:
  "parseIlpPeerInfo_legacy parseInt10 ev = Some info \<Longrightarrow> pi_createdAt info = created_at ev"
  by (auto simp: parseIlpPeerInfo_legacy_def split: if_splits option.splits)

text \<open>
  C6 (as amended). In a subscription of the core \<open>NostrPeerDiscovery\<close> the callback is
  invoked only for a record strictly newer than the subscription's last-seen timestamp of
  its author (0 at first): a record with createdAt <= lastSeen is dropped with no effect,
  one with createdAt > lastSeen updates last-seen of that author only and goes to the
  callback when it parses. The last-seen state belongs to the one subscription: an event
  delivered to another subscription changes neither it nor what its handler does next,
  and a new subscription starts empty. In \<open>NostrPeerDiscoveryService\<close> the handler
  instead compares with, and writes, the record cached by the service instance: it calls
  back only for a record that parses and is strictly newer than the cached one.
\<close>

theorem subscription_strictly_newer:
  "(snd (sub_onevent parse ev sub) \<noteq> [] \<longrightarrow>
      \<not> isUnsubscribed sub \<and> lastSeen_of sub (pubkey ev) < created_at ev \<and>
      (\<exists>info. parse ev = Inr info \<and> snd (sub_onevent parse ev sub) = [(pubkey ev, info)])) \<and>
   (created_at ev \<le> lastSeen_of sub (pubkey ev) \<longrightarrow> sub_onevent parse ev sub = (sub, [])) \<and>
   (lastSeen_of sub (pubkey ev) < created_at ev \<and> \<not> isUnsubscribed sub \<longrightarrow>
      lastSeen_of (fst (sub_onevent parse ev sub)) (pubkey ev) = created_at ev \<and>
      (\<forall>a. a \<noteq> pubkey ev \<longrightarrow> lastSeen_of (fst (sub_onevent parse ev sub)) a = lastSeen_of sub a) \<and>
      snd (sub_onevent parse ev sub) =
        (case parse ev of Inl _ \<Rightarrow> [] | Inr info \<Rightarrow> [(pubkey ev, info)])) \<and>
   (i \<noteq> j \<and> j < length subs \<longrightarrow>
      fst (deliver parse i ev subs) ! j = subs ! j \<and>
      sub_onevent parse ev' (fst (deliver parse i ev subs) ! j) = sub_onevent parse ev' (subs ! j)) \<and>
   (NostrPeerDiscovery_subscribeToPeerUpdates pool pk subs = Inr subs' \<longrightarrow>
      subs' = subs \<or> subs' = subs @ [new_PeerSubscription]) \<and>
   (snd (service_onevent parseInt10 ev s) \<noteq> [] \<longrightarrow>
      (\<exists>info. parseIlpPeerInfo_legacy parseInt10 ev = Some info \<and>
         snd (service_onevent parseInt10 ev s) = [info] \<and>
         (case cachedAt s (pubkey ev) of None \<Rightarrow> True | Some t \<Rightarrow> t < created_at ev) \<and>
         cachedAt (fst (service_onevent parseInt10 ev s)) (pubkey ev) = Some (created_at ev))) \<and>
   ((case cachedAt s (pubkey ev) of None \<Rightarrow> False | Some t \<Rightarrow> created_at ev \<le> t) \<longrightarrow>
      service_onevent parseInt10 ev s = (s, []))"
proof -
  have a: "snd (sub_onevent parse ev sub) \<noteq> [] \<longrightarrow>
      \<not> isUnsubscribed sub \<and> lastSeen_of sub (pubkey ev) < created_at ev \<and>
      (\<exists>info. parse ev = Inr info \<and> snd (sub_onevent parse ev sub) = [(pubkey ev, info)])"
    by (auto simp: sub_onevent_cases split: if_splits sum.splits)
  have b: "created_at ev \<le> lastSeen_of sub (pubkey ev) \<longrightarrow> sub_onevent parse ev sub = (sub, [])"
    by (simp add: sub_onevent_cases)
  have c: "lastSeen_of sub (pubkey ev) < created_at ev \<and> \<not> isUnsubscribed sub \<longrightarrow>
      lastSeen_of (fst (sub_onevent parse ev sub)) (pubkey ev) = created_at ev \<and>
      (\<forall>a. a \<noteq> pubkey ev \<longrightarrow> lastSeen_of (fst (sub_onevent parse ev sub)) a = lastSeen_of sub a) \<and>
      snd (sub_onevent parse ev sub) =
        (case parse ev of Inl _ \<Rightarrow> [] | Inr info \<Rightarrow> [(pubkey ev, info)])"
    by (auto simp: sub_onevent_cases lastSeen_of_def)
  have d: "i \<noteq> j \<and> j < length subs \<longrightarrow>
      fst (deliver parse i ev subs) ! j = subs ! j \<and>
      sub_onevent parse ev' (fst (deliver parse i ev subs) ! j) = sub_onevent parse ev' (subs ! j)"
    by (simp add: deliver_other)
  have e: "NostrPeerDiscovery_subscribeToPeerUpdates pool pk subs = Inr subs' \<longrightarrow>
      subs' = subs \<or> subs' = subs @ [new_PeerSubscription]"
    by (auto simp: NostrPeerDiscovery_subscribeToPeerUpdates_def split: if_splits sum.splits)
  have f: "snd (service_onevent parseInt10 ev s) \<noteq> [] \<longrightarrow>
      (\<exists>info. parseIlpPeerInfo_legacy parseInt10 ev = Some info \<and>
         snd (service_onevent parseInt10 ev s) = [info] \<and>
         (case cachedAt s (pubkey ev) of None \<Rightarrow> True | Some t \<Rightarrow> t < created_at ev) \<and>
         cachedAt (fst (service_onevent parseInt10 ev s)) (pubkey ev) = Some (created_at ev))"
    by (auto simp: service_onevent_cases cachedAt_def parse_legacy_createdAt
        split: option.splits if_splits)
  have g: "(case cachedAt s (pubkey ev) of None \<Rightarrow> False | Some t \<Rightarrow> created_at ev \<le> t) \<longrightarrow>
      service_onevent parseInt10 ev s = (s, [])"
    by (auto simp: service_onevent_cases split: option.splits)
  show ?thesis using a b c d e f g by (intro conjI)
qed

text \<open>
  Two subscriptions of one service instance: the first is handed alice's record and
  calls back; the second, which has seen nothing yet, is handed the same record and
  stays silent, because the first one wrote the shared cache. Two subscriptions of the
  core class both call back.
\<close>

theorem shared_last_seen_counterexample:
  "snd (service_deliver (\<lambda>_. None) 0 (ex_peer_event ''v1'' ''alice'' 100 ''g.a'')
          (new_NostrPeerDiscoveryService ''me'')) \<noteq> [] \<and>
   snd (service_deliver (\<lambda>_. None) 1 (ex_peer_event ''v1'' ''alice'' 100 ''g.a'')
          (fst (service_deliver (\<lambda>_. None) 0 (ex_peer_event ''v1'' ''alice'' 100 ''g.a'')
                 (new_NostrPeerDiscoveryService ''me'')))) = [] \<and>
   snd (deliver ex_parse 1 (ex_advert ''v1'' ''alice'' 100 ''{}'')
          (fst (deliver ex_parse 0 (ex_advert ''v1'' ''alice'' 100 ''{}'')
                 [new_PeerSubscription, new_PeerSubscription]))) = [(''alice'', ''v1'')]"
  by (simp add: service_deliver_def service_onevent_def parseIlpPeerInfo_legacy_def
      ex_peer_event_def new_NostrPeerDiscoveryService_def ILP_PEER_INFO_KIND_def find_tag_def
      tag_at_def deliver_def sub_onevent_def new_PeerSubscription_def ex_parse_def ex_advert_def)

theorem subscription_strictly_newer_witness:
  "sub_onevent ex_parse (ex_advert ''v1'' ''alice'' 100 ''{}'') new_PeerSubscription =
     (new_PeerSubscription\<lparr>peerTimestamps := [''alice'' \<mapsto> 100]\<rparr>, [(''alice'', ''v1'')]) \<and>
   sub_onevent ex_parse (ex_advert ''v0'' ''alice'' 100 ''{}'')
     (new_PeerSubscription\<lparr>peerTimestamps := [''alice'' \<mapsto> 100]\<rparr>) =
     (new_PeerSubscription\<lparr>peerTimestamps := [''alice'' \<mapsto> 100]\<rparr>, [])"
proof -
  let ?ev = "ex_advert ''v1'' ''alice'' 100 ''{}''" and ?old = "ex_advert ''v0'' ''alice'' 100 ''{}''"
  let ?sub = "new_PeerSubscription\<lparr>peerTimestamps := [''alice'' \<mapsto> 100]\<rparr>"
  have h: "created_at ?old \<le> lastSeen_of ?sub (pubkey ?old)"
    by (simp add: ex_advert_def lastSeen_of_def)
  have b: "sub_onevent ex_parse ?old ?sub = (?sub, [])"
    using subscription_strictly_newer[where ev = ?old and sub = ?sub and parse = ex_parse,
        THEN conjunct2, THEN conjunct1] h by blast
  have a: "sub_onevent ex_parse ?ev new_PeerSubscription = (?sub, [(''alice'', ''v1'')])"
    by (simp add: sub_onevent_def ex_advert_def new_PeerSubscription_def ex_parse_def)
  show ?thesis using a b by simp
qed


lemma map_of_all_None:
  assumes "\<And>a. map_of xs a = None"
  shows "xs = []"
proof (cases xs)
  case Nil
  then show ?thesis .
next
  case (Cons x l)
  then have "map_of xs (fst x) = Some (snd x)" by simp
  with assms show ?thesis by simp
qed

text \<open>
  X1. \<open>discoverPeers\<close> of the core class: when the pubkey is well formed and the two
  queries answer, the result is not an error; it has at most one entry per author, the
  parse of the first of the author's newest advertisements; an author whose newest
  advertisement fails to parse is absent; the result is empty when the follow list is
  empty or no advertisement parses.
\<close>

theorem core_discoverPeers_latest_per_author:
  assumes "PUBKEY_REGEX_test pk"
    and "NostrPeerDiscovery_getFollows pool pk = Inr follows"
    and "pool (peer_info_filter (map Some follows)) = Inr events"
  shows "\<exists>result. NostrPeerDiscovery_discoverPeers parse pool pk = Inr result \<and>
           distinct (map fst result) \<and>
           (follows = [] \<longrightarrow> result = []) \<and>
           (follows \<noteq> [] \<longrightarrow>
              (\<forall>a. map_of result a =
                 (case first_newest (filter (\<lambda>x. pubkey x = a) events) of
                    None \<Rightarrow> None
                  | Some ev \<Rightarrow> (case parse ev of Inl _ \<Rightarrow> None | Inr info \<Rightarrow> Some info))) \<and>
              ((\<forall>ev\<in>set events. \<exists>err. parse ev = Inl err) \<longrightarrow> result = []))"
proof (cases "follows = []")
  case True
  then show ?thesis using assms by (simp add: NostrPeerDiscovery_discoverPeers_def)
next
  case False
  let ?result = "foldl (parse_into parse) [] (eventsByPubkey events)"
  have r: "NostrPeerDiscovery_discoverPeers parse pool pk = Inr ?result"
    using assms False by (simp add: NostrPeerDiscovery_discoverPeers_def)
  have m: "map_of ?result a =
             (case first_newest (filter (\<lambda>x. pubkey x = a) events) of
                None \<Rightarrow> None
              | Some ev \<Rightarrow> (case parse ev of Inl _ \<Rightarrow> None | Inr info \<Rightarrow> Some info))" for a
    by (simp add: map_of_foldl_parse_into[OF distinct_eventsByPubkey] eventsByPubkey_char)
  have e: "?result = []" if bad: "\<forall>ev\<in>set events. \<exists>err. parse ev = Inl err"
  proof (rule map_of_all_None)
    fix a
    show "map_of ?result a = None"
    proof (cases "first_newest (filter (\<lambda>x. pubkey x = a) events)")
      case None
      then show ?thesis by (simp add: m)
    next
      case (Some ev)
      then have "ev \<in> set events" using first_newest_SomeD by fastforce
      then obtain err where "parse ev = Inl err" using bad by blast
      then show ?thesis using Some by (simp add: m)
    qed
  qed
  show ?thesis using r m e False distinct_foldl_parse_into[of parse "eventsByPubkey events"] by auto
qed

theorem core_discoverPeers_latest_per_author_witness:
  "NostrPeerDiscovery_discoverPeers ex_parse ex_core_pool (ex_hexkey CHR ''a'') =
     Inr [(''alice'', ''a2'')]"
proof -
  let ?events = "[ex_advert ''a1'' ''alice'' 100 ''{}'', ex_advert ''b1'' ''bob'' 100 ''{}'',
                  ex_advert ''a2'' ''alice'' 200 ''{}'', ex_advert ''b2'' ''bob'' 300 ''broken'']"
  have h1: "PUBKEY_REGEX_test (ex_hexkey CHR ''a'')" by code_simp
  have h2: "NostrPeerDiscovery_getFollows ex_core_pool (ex_hexkey CHR ''a'') =
              Inr [''alice'', ''bob'']"
    by code_simp
  have h3: "ex_core_pool (peer_info_filter (map Some [''alice'', ''bob''])) = Inr ?events"
    by code_simp
  obtain result where
    r: "NostrPeerDiscovery_discoverPeers ex_parse ex_core_pool (ex_hexkey CHR ''a'') = Inr result"
    using core_discoverPeers_latest_per_author[OF h1 h2 h3, of ex_parse] by blast
  have "NostrPeerDiscovery_discoverPeers ex_parse ex_core_pool (ex_hexkey CHR ''a'') =
          Inr [(''alice'', ''a2'')]"
    by code_simp
  then show ?thesis using r by simp
qed

text \<open>
  C7, the failing input. \<open>discoverPeers\<close> of \<open>NostrPeerDiscoveryService\<close> pushes one
  entry per event that parses: when the relays return two versions of the advertisement
  of one followed author, the result holds two entries for that author, the superseded
  one first.
\<close>

theorem service_discoverPeers_duplicate_author:
  "map (\<lambda>p. (pi_pubkey p, pi_ilpAddress p, pi_createdAt p))
     (fst (NostrPeerDiscoveryService_discoverPeers (\<lambda>_. None) ex_relays
            (new_NostrPeerDiscoveryService ''me''))) =
   [(''alice'', Some ''g.old'', 100), (''alice'', Some ''g.new'', 200)]"
  by code_simp

section \<open>The correlated request and its timeout\<close>

lemma pending_inv_start: "pending_inv (start_request rid dl)"
  by (simp add: pending_inv_def start_request_def)

lemma onevent_frame:
  "pr_requestId (onevent parse ev st) = pr_requestId st \<and> deadline (onevent parse ev st) = deadline st"
  by (simp add: onevent_def promise_settle_def split: sum.splits)

lemma step_frame:
  "pr_requestId (step parse st e) = pr_requestId st \<and> deadline (step parse st e) = deadline st"
  by (cases e) (simp_all add: onevent_frame ontimeout_def promise_settle_def)

lemma onevent_discard:
  "\<not> is_match parse (pr_requestId st) ev \<Longrightarrow> onevent parse ev st = st"
  by (auto simp: onevent_def is_match_def split: sum.splits)

lemma onevent_match:
  assumes "is_match parse (pr_requestId st) ev" "\<not> resolved st" "outcome st = None"
  shows "\<exists>r. parse ev = Inr r \<and> requestId r = pr_requestId st \<and>
           onevent parse ev st =
             st\<lparr>resolved := True, timerArmed := False, subOpen := False,
                outcome := Some (Inr \<lparr>destinationAccount = resp_destinationAccount r,
                                       sharedSecret = resp_sharedSecret r\<rparr>),
                settle_calls := Suc (settle_calls st)\<rparr>"
  using assms by (auto simp: onevent_def is_match_def promise_settle_def split: sum.splits)

lemma step_inv: "pending_inv st \<Longrightarrow> pending_inv (step parse st e)"
proof (cases e)
  case (Deliver t ev)
  assume "pending_inv st"
  then show ?thesis unfolding Deliver
    by (auto simp: pending_inv_def onevent_def promise_settle_def is_resolution_def is_timeout_def
        split: sum.splits)
next
  case (TimerDue t)
  assume "pending_inv st"
  then show ?thesis unfolding TimerDue
    by (auto simp: pending_inv_def ontimeout_def promise_settle_def is_resolution_def is_timeout_def)
qed

lemma run_inv: "pending_inv st \<Longrightarrow> pending_inv (run parse steps st)"
  unfolding run_def by (induction steps arbitrary: st) (simp_all add: step_inv)

lemma step_settled: "pending_inv st \<Longrightarrow> outcome st \<noteq> None \<Longrightarrow> step parse st e = st"
  by (cases e) (auto simp: pending_inv_def onevent_def)

lemma run_settled: "pending_inv st \<Longrightarrow> outcome st \<noteq> None \<Longrightarrow> run parse steps st = st"
  unfolding run_def by (induction steps) (simp_all add: step_settled)

lemma run_append: "run parse (xs @ ys) st = run parse ys (run parse xs st)"
  by (simp add: run_def)

lemma run_quiet:
  assumes "pending_inv st" "outcome st = None"
    "\<not> list_ex (delivers_match parse (pr_requestId st)) steps"
    "\<not> list_ex (timer_due (deadline st)) steps"
  shows "run parse steps st = st"
  using assms unfolding run_def
proof (induction steps)
  case Nil
  then show ?case by simp
next
  case (Cons e steps)
  have "step parse st e = st"
  proof (cases e)
    case (Deliver t ev)
    then show ?thesis using Cons.prems by (simp add: onevent_discard)
  next
    case (TimerDue t)
    then show ?thesis using Cons.prems by simp
  qed
  then show ?case using Cons by simp
qed

lemma run_resolution_needs_match:
  assumes "pending_inv st" "outcome st = None" "is_resolution (outcome (run parse steps st))"
  shows "list_ex (delivers_match parse (pr_requestId st)) steps"
  using assms unfolding run_def
proof (induction steps arbitrary: st)
  case Nil
  then show ?case by (simp add: is_resolution_def)
next
  case (Cons e steps)
  show ?case
  proof (cases "delivers_match parse (pr_requestId st) e")
    case True
    then show ?thesis by simp
  next
    case False
    show ?thesis
    proof (cases e)
      case (Deliver t ev)
      then have "step parse st e = st" using False by (simp add: onevent_discard)
      then show ?thesis using Cons by simp
    next
      case (TimerDue t)
      show ?thesis
      proof (cases "timerArmed st \<and> deadline st \<le> t")
        case True
        have inv': "pending_inv (step parse st e)" using Cons.prems(1) by (rule step_inv)
        have to: "is_timeout (outcome (step parse st e))"
          using True Cons.prems(1,2) unfolding TimerDue
          by (simp add: ontimeout_def promise_settle_def is_timeout_def pending_inv_def)
        then have "outcome (step parse st e) \<noteq> None"
          by (auto simp: is_timeout_def split: option.splits)
        then have "foldl (step parse) (step parse st e) steps = step parse st e"
          using run_settled[OF inv', of parse steps] by (simp add: run_def)
        with Cons.prems(3) have "is_resolution (outcome (step parse st e))" by simp
        with to inv' have False by (auto simp: pending_inv_def is_timeout_def)
        then show ?thesis ..
      next
        case False
        then have "step parse st e = st" unfolding TimerDue by auto
        then show ?thesis using Cons by simp
      qed
    qed
  qed
qed

lemma run_timeout_needs_due:
  assumes "pending_inv st" "outcome st = None" "is_timeout (outcome (run parse steps st))"
  shows "list_ex (timer_due (deadline st)) steps"
  using assms unfolding run_def
proof (induction steps arbitrary: st)
  case Nil
  then show ?case by (simp add: is_timeout_def)
next
  case (Cons e steps)
  show ?case
  proof (cases "timer_due (deadline st) e")
    case True
    then show ?thesis by simp
  next
    case False
    show ?thesis
    proof (cases e)
      case (TimerDue t)
      then have "step parse st e = st" using False by simp
      then show ?thesis using Cons by simp
    next
      case (Deliver t ev)
      show ?thesis
      proof (cases "outcome (step parse st e) = None")
        case True
        have "list_ex (timer_due (deadline (step parse st e))) steps"
          using Cons.IH[OF step_inv[OF Cons.prems(1)] True] Cons.prems(3) by simp
        then show ?thesis by (simp add: step_frame)
      next
        case settled: False
        have inv': "pending_inv (step parse st e)" using Cons.prems(1) by (rule step_inv)
        have "is_resolution (outcome (step parse st e))"
          using settled Cons.prems(1,2) unfolding Deliver
          by (auto simp: onevent_def promise_settle_def is_resolution_def split: sum.splits if_splits)
        moreover have "foldl (step parse) (step parse st e) steps = step parse st e"
          using run_settled[OF inv' settled, of parse steps] by (simp add: run_def)
        ultimately have False using Cons.prems(3) inv' settled
          by (auto simp: pending_inv_def)
        then show ?thesis ..
      qed
    qed
  qed
qed

lemma run_due_settles:
  assumes "pending_inv st" "list_ex (timer_due (deadline st)) steps"
  shows "outcome (run parse steps st) \<noteq> None"
  using assms unfolding run_def
proof (induction steps arbitrary: st)
  case Nil
  then show ?case by simp
next
  case (Cons e steps)
  have inv': "pending_inv (step parse st e)" using Cons.prems(1) by (rule step_inv)
  show ?case
  proof (cases "outcome (step parse st e) = None")
    case False
    then show ?thesis using run_settled[OF inv' False, of parse steps] by (simp add: run_def)
  next
    case True
    have "\<not> timer_due (deadline st) e"
    proof
      assume d: "timer_due (deadline st) e"
      then obtain t where e: "e = TimerDue t" "deadline st \<le> t" by (cases e) auto
      have "outcome st = None" using True Cons.prems(1) step_settled[of st parse e] by force
      then have "timerArmed st" using Cons.prems(1) by (auto simp: pending_inv_def)
      then have "outcome (step parse st e) \<noteq> None"
        using e Cons.prems(1) by (auto simp: ontimeout_def promise_settle_def pending_inv_def split: option.splits)
      with True show False by simp
    qed
    then have "list_ex (timer_due (deadline (step parse st e))) steps"
      using Cons.prems(2) by (simp add: step_frame)
    then show ?thesis using Cons.IH[OF inv'] by simp
  qed
qed


text \<open>
  C2. For every request of \<open>requestSpspInfo\<close>, every response parser and every
  sequence of steps of the event loop: \<^verbatim>\<open>resolve\<close> and \<^verbatim>\<open>reject\<close> are called at most
  once in all, and exactly once as soon as the promise is settled; a settled promise is
  either resolved or rejected with the timeout error, its subscription is closed and its
  timer is no longer armed, and no later step changes anything (a matching response after
  the timeout does not resolve, a duplicate after the resolution is ignored). The timeout
  error only comes from a timer step at or after the deadline, a resolution only from a
  delivered candidate that decrypts and carries the request id; once the timer has come
  due the promise is settled; and when no such candidate is delivered before the timer
  comes due, the call rejects with the timeout error and the listener is torn down,
  whatever arrives afterwards.
\<close>

theorem request_settles_exactly_once:
  "settle_calls (run parse steps (start_request rid dl)) \<le> 1 \<and>
   (outcome (run parse steps (start_request rid dl)) \<noteq> None \<longleftrightarrow>
      settle_calls (run parse steps (start_request rid dl)) = 1) \<and>
   (outcome (run parse steps (start_request rid dl)) \<noteq> None \<longrightarrow>
      is_resolution (outcome (run parse steps (start_request rid dl))) \<noteq>
        is_timeout (outcome (run parse steps (start_request rid dl))) \<and>
      \<not> subOpen (run parse steps (start_request rid dl)) \<and>
      \<not> timerArmed (run parse steps (start_request rid dl)) \<and>
      run parse (steps @ later) (start_request rid dl) = run parse steps (start_request rid dl)) \<and>
   (is_timeout (outcome (run parse steps (start_request rid dl))) \<longrightarrow>
      list_ex (timer_due dl) steps) \<and>
   (is_resolution (outcome (run parse steps (start_request rid dl))) \<longrightarrow>
      list_ex (delivers_match parse rid) steps) \<and>
   (list_ex (timer_due dl) steps \<longrightarrow> outcome (run parse steps (start_request rid dl)) \<noteq> None) \<and>
   (\<not> list_ex (delivers_match parse rid) steps \<and> dl \<le> t \<longrightarrow>
      is_timeout (outcome (run parse (steps @ TimerDue t # later) (start_request rid dl))) \<and>
      \<not> subOpen (run parse (steps @ TimerDue t # later) (start_request rid dl)))"
proof -
  let ?init = "start_request rid dl"
  let ?st = "run parse steps ?init"
  have i0: "pending_inv ?init" by (rule pending_inv_start)
  have o0: "outcome ?init = None" by (simp add: start_request_def)
  have r0: "pr_requestId ?init = rid" "deadline ?init = dl" by (simp_all add: start_request_def)
  have inv: "pending_inv (run parse xs ?init)" for xs using i0 by (rule run_inv)
  have a: "settle_calls ?st \<le> 1" using inv[of steps] by (simp add: pending_inv_def)
  have b: "outcome ?st \<noteq> None \<longleftrightarrow> settle_calls ?st = 1"
    using inv[of steps] unfolding pending_inv_def by blast
  have c: "outcome ?st \<noteq> None \<longrightarrow>
      is_resolution (outcome ?st) \<noteq> is_timeout (outcome ?st) \<and> \<not> subOpen ?st \<and>
      \<not> timerArmed ?st \<and> run parse (steps @ later) ?init = ?st"
    using inv[of steps] run_settled[OF inv[of steps], of parse later]
    by (auto simp: pending_inv_def run_append)
  have d: "is_timeout (outcome ?st) \<longrightarrow> list_ex (timer_due dl) steps"
    using run_timeout_needs_due[OF i0 o0, of parse steps] r0 by simp
  have e: "is_resolution (outcome ?st) \<longrightarrow> list_ex (delivers_match parse rid) steps"
    using run_resolution_needs_match[OF i0 o0, of parse steps] r0 by simp
  have f: "list_ex (timer_due dl) steps \<longrightarrow> outcome ?st \<noteq> None"
    using run_due_settles[OF i0, of steps parse] r0 by simp
  have g: "is_timeout (outcome (run parse (steps @ TimerDue t # later) ?init)) \<and>
           \<not> subOpen (run parse (steps @ TimerDue t # later) ?init)"
    if nm: "\<not> list_ex (delivers_match parse rid) steps" and due: "dl \<le> t"
  proof -
    let ?mid = "run parse (steps @ [TimerDue t]) ?init"
    have i1: "pending_inv ?mid" by (rule inv)
    have set1: "outcome ?mid \<noteq> None"
      using run_due_settles[OF i0, of "steps @ [TimerDue t]" parse] r0 due by simp
    have "\<not> is_resolution (outcome ?mid)"
      using run_resolution_needs_match[OF i0 o0, of parse "steps @ [TimerDue t]"] r0 nm by auto
    then have to: "is_timeout (outcome ?mid)" "\<not> subOpen ?mid"
      using i1 set1 by (auto simp: pending_inv_def)
    have "run parse (steps @ TimerDue t # later) ?init = run parse later ?mid"
      by (simp add: run_def)
    also have "\<dots> = ?mid" using run_settled[OF i1 set1] .
    finally show ?thesis using to by simp
  qed
  show ?thesis using a b c d e f g by (intro conjI) blast+
qed

theorem request_settles_exactly_once_witness:
  "run ex_response_parser
     [Deliver 1 (ex_response ''e1'' ''garbage''), Deliver 2 (ex_response ''e2'' ''other-request''),
      TimerDue 10, Deliver 11 (ex_response ''e3'' ''req-1'')] (start_request ''req-1'' 10) =
     \<lparr>pr_requestId = ''req-1'', deadline = 10, resolved = True, timerArmed = False,
      subOpen = False, outcome = Some (Inl (SpspTimeoutError ''SPSP request timed out'')),
      settle_calls = 1\<rparr> \<and>
   run ex_response_parser
     [Deliver 1 (ex_response ''e1'' ''garbage''), TimerDue 5,
      Deliver 6 (ex_response ''e2'' ''req-1''), Deliver 7 (ex_response ''e3'' ''req-1''),
      TimerDue 10] (start_request ''req-1'' 10) =
     \<lparr>pr_requestId = ''req-1'', deadline = 10, resolved = True, timerArmed = False,
      subOpen = False,
      outcome = Some (Inr \<lparr>destinationAccount = ''e2'', sharedSecret = ''c2VjcmV0''\<rparr>),
      settle_calls = 1\<rparr>"
proof -
  let ?quiet = "[Deliver 1 (ex_response ''e1'' ''garbage''),
                 Deliver 2 (ex_response ''e2'' ''other-request'')]"
  let ?late = "[Deliver 11 (ex_response ''e3'' ''req-1'')]"
  have h: "\<not> list_ex (delivers_match ex_response_parser ''req-1'') ?quiet \<and> (10::int) \<le> 10"
    by (simp add: is_match_def ex_response_parser_def ex_response_def)
  have "is_timeout (outcome (run ex_response_parser (?quiet @ TimerDue 10 # ?late)
          (start_request ''req-1'' 10)))"
    using request_settles_exactly_once[where parse = ex_response_parser and steps = ?quiet
        and rid = "''req-1''" and dl = 10 and t = 10 and later = ?late] h by blast
  moreover have "run ex_response_parser (?quiet @ TimerDue 10 # ?late) (start_request ''req-1'' 10) =
     \<lparr>pr_requestId = ''req-1'', deadline = 10, resolved = True, timerArmed = False,
      subOpen = False, outcome = Some (Inl (SpspTimeoutError ''SPSP request timed out'')),
      settle_calls = 1\<rparr>"
    by code_simp
  moreover have "run ex_response_parser
     [Deliver 1 (ex_response ''e1'' ''garbage''), TimerDue 5,
      Deliver 6 (ex_response ''e2'' ''req-1''), Deliver 7 (ex_response ''e3'' ''req-1''),
      TimerDue 10] (start_request ''req-1'' 10) =
     \<lparr>pr_requestId = ''req-1'', deadline = 10, resolved = True, timerArmed = False,
      subOpen = False,
      outcome = Some (Inr \<lparr>destinationAccount = ''e2'', sharedSecret = ''c2VjcmV0''\<rparr>),
      settle_calls = 1\<rparr>"
    by code_simp
  ultimately show ?thesis by simp
qed

text \<open>
  C3 (as amended). In \<open>requestSpspInfo\<close> of the core package a candidate that fails to
  decrypt or parse, or that carries another request id, leaves the pending request as it
  was (neither resolved nor rejected, timer and subscription untouched); only a candidate
  that decrypts and carries the matching id ends the wait, by resolving it. A sequence of
  such discarded candidates, with no timer due, leaves the request as it started. In
  \<open>waitForResponse\<close> of the protocol package the first event the subscription delivers
  ends the wait: timer cleared, subscription closed, and the promise resolved with the
  decrypted payload, or rejected when decryption or JSON parsing fails.
\<close>

theorem candidates_discarded_or_terminate:
  "(\<not> is_match parse (pr_requestId st) ev \<longrightarrow> onevent parse ev st = st) \<and>
   (is_match parse (pr_requestId st) ev \<and> \<not> resolved st \<and> outcome st = None \<longrightarrow>
      is_resolution (outcome (onevent parse ev st)) \<and> resolved (onevent parse ev st) \<and>
      \<not> subOpen (onevent parse ev st) \<and> \<not> timerArmed (onevent parse ev st)) \<and>
   (\<not> list_ex (delivers_match parse rid) steps \<and> \<not> list_ex (timer_due dl) steps \<longrightarrow>
      run parse steps (start_request rid dl) = start_request rid dl) \<and>
   (w_outcome w = None \<longrightarrow>
      w_outcome (waitForResponse_onevent decrypt ev w) =
        Some (case decrypt ev of
                Inr response \<Rightarrow> Inr response
              | Inl err \<Rightarrow> Inl (PlainError ''Failed to decrypt SPSP response'')) \<and>
      \<not> w_timerArmed (waitForResponse_onevent decrypt ev w) \<and>
      \<not> w_subOpen (waitForResponse_onevent decrypt ev w))"
proof -
  have a: "\<not> is_match parse (pr_requestId st) ev \<longrightarrow> onevent parse ev st = st"
    by (simp add: onevent_discard)
  have b: "is_match parse (pr_requestId st) ev \<and> \<not> resolved st \<and> outcome st = None \<longrightarrow>
      is_resolution (outcome (onevent parse ev st)) \<and> resolved (onevent parse ev st) \<and>
      \<not> subOpen (onevent parse ev st) \<and> \<not> timerArmed (onevent parse ev st)"
    using onevent_match[of parse st ev] by (auto simp: is_resolution_def)
  have c: "\<not> list_ex (delivers_match parse rid) steps \<and> \<not> list_ex (timer_due dl) steps \<longrightarrow>
      run parse steps (start_request rid dl) = start_request rid dl"
    using run_quiet[OF pending_inv_start, of rid dl parse steps]
    by (simp add: start_request_def)
  have d: "w_outcome w = None \<longrightarrow>
      w_outcome (waitForResponse_onevent decrypt ev w) =
        Some (case decrypt ev of
                Inr response \<Rightarrow> Inr response
              | Inl err \<Rightarrow> Inl (PlainError ''Failed to decrypt SPSP response'')) \<and>
      \<not> w_timerArmed (waitForResponse_onevent decrypt ev w) \<and>
      \<not> w_subOpen (waitForResponse_onevent decrypt ev w)"
    by (simp add: waitForResponse_onevent_def wait_settle_def Let_def split: sum.splits)
  show ?thesis using a b c d by (intro conjI)
qed

text \<open>
  A pending \<open>waitForResponse\<close> handed one event that does not decrypt: the request is
  rejected and the wait is over.
\<close>

theorem waitForResponse_rejects_counterexample:
  "waitForResponse_onevent (\<lambda>ev. Inl (PlainError ''invalid MAC'') :: js_error + string)
     (ex_response ''e1'' ''garbage'') start_wait =
   \<lparr>w_timerArmed = False, w_subOpen = False,
    w_outcome = Some (Inl (PlainError ''Failed to decrypt SPSP response'')),
    w_settle_calls = 1\<rparr>"
  by (simp add: waitForResponse_onevent_def wait_settle_def start_wait_def)

theorem candidates_discarded_or_terminate_witness:
  "onevent ex_response_parser (ex_response ''e1'' ''garbage'') (start_request ''req-1'' 10) =
     start_request ''req-1'' 10 \<and>
   onevent ex_response_parser (ex_response ''e2'' ''other-request'') (start_request ''req-1'' 10) =
     start_request ''req-1'' 10 \<and>
   outcome (onevent ex_response_parser (ex_response ''e3'' ''req-1'') (start_request ''req-1'' 10)) =
     Some (Inr \<lparr>destinationAccount = ''e3'', sharedSecret = ''c2VjcmV0''\<rparr>)"
proof -
  let ?st = "start_request ''req-1'' 10"
  have n1: "\<not> is_match ex_response_parser (pr_requestId ?st) (ex_response ''e1'' ''garbage'')"
    and n2: "\<not> is_match ex_response_parser (pr_requestId ?st) (ex_response ''e2'' ''other-request'')"
    by (simp_all add: is_match_def ex_response_parser_def ex_response_def start_request_def)
  have a: "onevent ex_response_parser (ex_response ''e1'' ''garbage'') ?st = ?st"
    using candidates_discarded_or_terminate[where parse = ex_response_parser and st = ?st
        and ev = "ex_response ''e1'' ''garbage''", THEN conjunct1] n1 by blast
  have b: "onevent ex_response_parser (ex_response ''e2'' ''other-request'') ?st = ?st"
    using candidates_discarded_or_terminate[where parse = ex_response_parser and st = ?st
        and ev = "ex_response ''e2'' ''other-request''", THEN conjunct1] n2 by blast
  have c: "outcome (onevent ex_response_parser (ex_response ''e3'' ''req-1'') ?st) =
     Some (Inr \<lparr>destinationAccount = ''e3'', sharedSecret = ''c2VjcmV0''\<rparr>)"
    by code_simp
  show ?thesis using a b c by simp
qed

section \<open>Building and parsing events\<close>

lemma core_ilp_round_trip:
  assumes "JSON_parse (JSON_stringify (IlpPeerInfo_json X)) = Some (IlpPeerInfo_json X)"
    and "ilpAddress X \<noteq> []" "btpEndpoint X \<noteq> []" "assetCode X \<noteq> []"
  shows "parseIlpPeerInfo JSON_parse (buildIlpPeerInfoEvent JSON_stringify now signer i sg X) = Inr X"
  using assms
  by (cases "settlementEngine X")
     (simp_all add: parseIlpPeerInfo_def buildIlpPeerInfoEvent_def finalizeEvent_def
       IlpPeerInfo_json_def isObject_def required_string_def json_get_def)

lemma core_spsp_round_trip:
  assumes "JSON_parse (JSON_stringify (SpspInfo_json Y)) = Some (SpspInfo_json Y)"
    and "destinationAccount Y \<noteq> []" "sharedSecret Y \<noteq> []"
  shows "parseSpspInfo JSON_parse (buildSpspInfoEvent JSON_stringify now signer i sg Y) = Inr Y"
  using assms
  by (simp_all add: parseSpspInfo_def buildSpspInfoEvent_def finalizeEvent_def
       SpspInfo_json_def isObject_def required_string_def json_get_def)

lemma legacy_spsp_round_trip:
  "parseSpspInfo_legacy (finalizeEvent signer i sg (buildSpspInfoEvent_legacy now params)) =
     Some \<lparr>si_pubkey = signer,
           si_destinationAccount = Some (p_destinationAccount params),
           si_sharedSecret = Some (p_sharedSecret params),
           si_receiptsEnabled = (p_receiptsEnabled params = Some True),
           si_createdAt = now div 1000\<rparr>"
  by (cases "p_receiptsEnabled params")
     (auto simp: parseSpspInfo_legacy_def finalizeEvent_def buildSpspInfoEvent_legacy_def
       find_tag_def tag_at_def)

lemma legacy_ilp_round_trip:
  "parseIlpPeerInfo_legacy parseInt10
     (finalizeEvent signer i sg (buildIlpPeerInfoEvent_legacy Number_toString now params)) =
   Some \<lparr>pi_pubkey = signer,
         pi_ilpAddress = Some (ip_ilpAddress params),
         pi_btpEndpoint = Some (ip_btpEndpoint params),
         pi_assets =
           map (\<lambda>asset. (Some (fst asset),
                  case parseInt10 (Some (Number_toString (snd asset))) of None \<Rightarrow> 0 | Some n \<Rightarrow> n))
             (or_empty (ip_assets params)),
         pi_settlement = map (\<lambda>s. (Some (fst s), snd s)) (or_empty (ip_settlement params)),
         pi_relays = map Some (or_empty (ip_relays params)),
         pi_createdAt = now div 1000\<rparr>"
  by (cases "ip_assets params"; cases "ip_settlement params"; cases "ip_relays params")
     (simp_all add: parseIlpPeerInfo_legacy_def finalizeEvent_def buildIlpPeerInfoEvent_legacy_def
       find_tag_def tag_at_def or_empty_def filter_map comp_def ILP_PEER_INFO_KIND_def)

text \<open>
  C5 (as amended). In the core package parsing is a left inverse of building: for every
  peer advertisement \<open>X\<close> with non-empty ilpAddress, btpEndpoint and assetCode, and every
  payment-setup payload \<open>Y\<close> with non-empty fields, whose JSON text \<^verbatim>\<open>JSON.parse\<close> reads
  back as written, the parse of the built event is exactly the payload; a
  settlementEngine that was omitted is absent after the round trip, one that was set is
  kept, and no field is added. In the tag-based pair of the protocol package the parse
  of the signed event returns the fields of the payload together with the pubkey of the
  signer and the timestamp of the event, with defaults for what was omitted:
  receiptsEnabled is the boolean that is true exactly when the payload set it to true,
  and the assets, settlement and relays of a peer advertisement are the lists that were
  given, empty when omitted, each asset scale read back by \<^verbatim>\<open>parseInt\<close> from its text.
\<close>

theorem parse_build_round_trip:
  "(JSON_parse (JSON_stringify (IlpPeerInfo_json X)) = Some (IlpPeerInfo_json X) \<and>
    ilpAddress X \<noteq> [] \<and> btpEndpoint X \<noteq> [] \<and> assetCode X \<noteq> [] \<longrightarrow>
      parseIlpPeerInfo JSON_parse (buildIlpPeerInfoEvent JSON_stringify now signer i sg X) =
        Inr X) \<and>
   (JSON_parse (JSON_stringify (SpspInfo_json Y)) = Some (SpspInfo_json Y) \<and>
    destinationAccount Y \<noteq> [] \<and> sharedSecret Y \<noteq> [] \<longrightarrow>
      parseSpspInfo JSON_parse (buildSpspInfoEvent JSON_stringify now signer i sg Y) = Inr Y) \<and>
   parseSpspInfo_legacy (finalizeEvent signer i sg (buildSpspInfoEvent_legacy now params)) =
     Some \<lparr>si_pubkey = signer,
           si_destinationAccount = Some (p_destinationAccount params),
           si_sharedSecret = Some (p_sharedSecret params),
           si_receiptsEnabled = (p_receiptsEnabled params = Some True),
           si_createdAt = now div 1000\<rparr> \<and>
   parseIlpPeerInfo_legacy parseInt10
     (finalizeEvent signer i sg (buildIlpPeerInfoEvent_legacy Number_toString now advert)) =
     Some \<lparr>pi_pubkey = signer,
           pi_ilpAddress = Some (ip_ilpAddress advert),
           pi_btpEndpoint = Some (ip_btpEndpoint advert),
           pi_assets =
             map (\<lambda>asset. (Some (fst asset),
                    case parseInt10 (Some (Number_toString (snd asset))) of
                      None \<Rightarrow> 0 | Some n \<Rightarrow> n))
               (or_empty (ip_assets advert)),
           pi_settlement = map (\<lambda>s. (Some (fst s), snd s)) (or_empty (ip_settlement advert)),
           pi_relays = map Some (or_empty (ip_relays advert)),
           pi_createdAt = now div 1000\<rparr>"
  using core_ilp_round_trip[of JSON_parse JSON_stringify X now signer i sg]
    core_spsp_round_trip[of JSON_parse JSON_stringify Y now signer i sg]
    legacy_spsp_round_trip[of signer i sg now params]
    legacy_ilp_round_trip[of parseInt10 signer i sg Number_toString now advert]
  by (intro conjI impI) simp_all

text \<open>
  A payment-setup payload of the protocol package that omits receiptsEnabled: after the
  round trip the field is there, with the default false, and the pubkey and the
  timestamp of the event have been added.
\<close>

theorem spsp_info_default_counterexample:
  "p_receiptsEnabled \<lparr>p_destinationAccount = ''g.receiver'', p_sharedSecret = ''c2VjcmV0'',
       p_receiptsEnabled = None\<rparr> = None \<and>
   parseSpspInfo_legacy (finalizeEvent ''receiver'' ''id'' ''sig''
      (buildSpspInfoEvent_legacy 1700000000000
         \<lparr>p_destinationAccount = ''g.receiver'', p_sharedSecret = ''c2VjcmV0'',
          p_receiptsEnabled = None\<rparr>)) =
     Some \<lparr>si_pubkey = ''receiver'', si_destinationAccount = Some ''g.receiver'',
           si_sharedSecret = Some ''c2VjcmV0'', si_receiptsEnabled = False,
           si_createdAt = 1700000000\<rparr>"
  by (simp add: parseSpspInfo_legacy_def finalizeEvent_def buildSpspInfoEvent_legacy_def
       find_tag_def tag_at_def)

lemma ex_documents_read_back:
  "ex_JSON_parse (ex_JSON_stringify (IlpPeerInfo_json ex_info)) = Some (IlpPeerInfo_json ex_info)"
  "ex_JSON_parse (ex_JSON_stringify (IlpPeerInfo_json ex_info_xrp)) =
     Some (IlpPeerInfo_json ex_info_xrp)"
  "ex_JSON_parse (ex_JSON_stringify (SpspInfo_json ex_spsp_static)) =
     Some (SpspInfo_json ex_spsp_static)"
  by (simp_all add: ex_JSON_parse_def ex_JSON_stringify_def ex_documents_def IlpPeerInfo_json_def
      SpspInfo_json_def ex_info_def ex_info_xrp_def ex_spsp_static_def ex_member_def
      ex_quoted_def)

theorem parse_build_round_trip_witness:
  "parseIlpPeerInfo ex_JSON_parse
     (buildIlpPeerInfoEvent ex_JSON_stringify 1700000000999 ''signer'' ''id'' ''sig'' ex_info) =
     Inr ex_info \<and>
   settlementEngine ex_info = None \<and>
   parseIlpPeerInfo ex_JSON_parse
     (buildIlpPeerInfoEvent ex_JSON_stringify 1700000000999 ''signer'' ''id'' ''sig'' ex_info_xrp) =
     Inr ex_info_xrp \<and>
   settlementEngine ex_info_xrp = Some ''xrp-paychan'' \<and>
   parseSpspInfo ex_JSON_parse
     (buildSpspInfoEvent ex_JSON_stringify 1700000000999 ''signer'' ''id'' ''sig'' ex_spsp_static) =
     Inr ex_spsp_static \<and>
   parseSpspInfo_legacy (finalizeEvent ''signer'' ''id'' ''sig''
      (buildSpspInfoEvent_legacy 1700000000999
         \<lparr>p_destinationAccount = ''g.receiver'', p_sharedSecret = ''c2VjcmV0'',
          p_receiptsEnabled = Some True\<rparr>)) =
     Some \<lparr>si_pubkey = ''signer'', si_destinationAccount = Some ''g.receiver'',
           si_sharedSecret = Some ''c2VjcmV0'', si_receiptsEnabled = True,
           si_createdAt = 1700000000\<rparr>"
proof -
  let ?p = "\<lparr>p_destinationAccount = ''g.receiver'', p_sharedSecret = ''c2VjcmV0'',
          p_receiptsEnabled = Some True\<rparr>"
  have a: "parseIlpPeerInfo ex_JSON_parse
     (buildIlpPeerInfoEvent ex_JSON_stringify 1700000000999 ''signer'' ''id'' ''sig'' ex_info) =
     Inr ex_info"
    using parse_build_round_trip[where JSON_parse = ex_JSON_parse
        and JSON_stringify = ex_JSON_stringify and X = ex_info and now = 1700000000999
        and signer = "''signer''" and i = "''id''" and sg = "''sig''", THEN conjunct1]
      ex_documents_read_back(1)
    by (simp add: ex_info_def)
  have b: "parseIlpPeerInfo ex_JSON_parse
     (buildIlpPeerInfoEvent ex_JSON_stringify 1700000000999 ''signer'' ''id'' ''sig'' ex_info_xrp) =
     Inr ex_info_xrp"
    using parse_build_round_trip[where JSON_parse = ex_JSON_parse
        and JSON_stringify = ex_JSON_stringify and X = ex_info_xrp and now = 1700000000999
        and signer = "''signer''" and i = "''id''" and sg = "''sig''", THEN conjunct1]
      ex_documents_read_back(2)
    by (simp add: ex_info_xrp_def)
  have c: "parseSpspInfo ex_JSON_parse
     (buildSpspInfoEvent ex_JSON_stringify 1700000000999 ''signer'' ''id'' ''sig'' ex_spsp_static) =
     Inr ex_spsp_static"
    using parse_build_round_trip[where JSON_parse = ex_JSON_parse
        and JSON_stringify = ex_JSON_stringify and Y = ex_spsp_static and now = 1700000000999
        and signer = "''signer''" and i = "''id''" and sg = "''sig''",
        THEN conjunct2, THEN conjunct1]
      ex_documents_read_back(3)
    by (simp add: ex_spsp_static_def)
  have d: "parseSpspInfo_legacy (finalizeEvent ''signer'' ''id'' ''sig''
      (buildSpspInfoEvent_legacy 1700000000999 ?p)) =
     Some \<lparr>si_pubkey = ''signer'', si_destinationAccount = Some ''g.receiver'',
           si_sharedSecret = Some ''c2VjcmV0'', si_receiptsEnabled = True,
           si_createdAt = 1700000000\<rparr>"
    using parse_build_round_trip[where now = 1700000000999 and params = ?p
        and signer = "''signer''" and i = "''id''" and sg = "''sig''",
        THEN conjunct2, THEN conjunct2, THEN conjunct1]
    by simp
  show ?thesis using a b c d by (simp add: ex_info_def ex_info_xrp_def)
qed

section \<open>Bootstrap\<close>














section \<open>The caches\<close>




lemma getFollows_store_simps:
  "fst (getFollows_store pk events m) = length (lp_sets m)"
  "lp_sets (snd (getFollows_store pk events m)) = lp_sets m @ [follows_of events]"
  "lp_followGraphCache (snd (getFollows_store pk events m)) =
     (lp_followGraphCache m)(pk \<mapsto> length (lp_sets m))"
  "lp_myPubkey (snd (getFollows_store pk events m)) = lp_myPubkey m"
  "lp_config (snd (getFollows_store pk events m)) = lp_config m"
  "lp_myFollows (snd (getFollows_store pk events m)) = lp_myFollows m"
  "lp_myFollowers (snd (getFollows_store pk events m)) = lp_myFollowers m"
  "lp_calls (snd (getFollows_store pk events m)) = lp_calls m"
  by (simp_all add: getFollows_store_def)

lemma held_set_Init:
  "held_set (Init lf lr out) = (case lf of LF_got a \<Rightarrow> Some a | _ \<Rightarrow> None)"
  by (cases lf) simp_all

lemma answer_call_fields:
  assumes "answer_call f ans c m = (c', m')"
  shows "lp_myPubkey m' = lp_myPubkey m \<and> lp_config m' = lp_config m \<and>
         lp_myFollows m' = lp_myFollows m \<and> lp_calls m' = lp_calls m"
  using assms
  by (cases c; cases ans) (auto simp: getFollows_store_simps split: if_splits)

lemma answer_call_sets:
  assumes "answer_call f ans c m = (c', m')"
  shows "lp_sets m' = lp_sets m \<or> lp_sets m' = lp_sets m @ [follows_of (projr ans)]"
  using assms
  by (cases c; cases ans) (auto simp: getFollows_store_simps split: if_splits)



lemma answer_call_cache_ran:
  assumes "answer_call f ans c m = (c', m')" "lp_followGraphCache m' k = Some a"
  shows "lp_followGraphCache m k = Some a \<or>
         a = length (lp_sets m) \<and> lp_sets m' = lp_sets m @ [follows_of (projr ans)]"
  using assms
  by (cases c; cases ans) (auto simp: getFollows_store_simps split: if_splits)

lemma answer_call_followers:
  assumes "answer_call f ans c m = (c', m')" "\<not> (\<exists>lf out. c = Init lf LR_query out)"
  shows "lp_myFollowers m' = lp_myFollowers m"
  using assms
  by (cases c; cases ans) (auto simp: getFollows_store_simps split: if_splits)


lemma answer_call_held:
  "answer_call f ans c m = (c', m') \<Longrightarrow> held_set c' = Some a \<Longrightarrow>
   held_set c = Some a \<or>
   a = length (lp_sets m) \<and> lp_sets m' = lp_sets m @ [follows_of (projr ans)]"
  by (cases c; cases ans)
     (auto simp: getFollows_store_simps held_set_Init split: if_splits follows_load.splits)

lemma continue_call_fields:
  assumes "continue_call c m = (c', m')"
  shows "lp_myPubkey m' = lp_myPubkey m \<and> lp_config m' = lp_config m \<and>
         lp_sets m' = lp_sets m \<and> lp_calls m' = lp_calls m \<and>
         lp_followGraphCache m' = lp_followGraphCache m \<and> lp_myFollowers m' = lp_myFollowers m \<and>
         (lp_myFollows m' = lp_myFollows m \<or> held_set c = Some (lp_myFollows m'))"
  using assms
  by (induction c m rule: continue_call.induct) auto


lemma continue_call_held:
  "continue_call c m = (c', m') \<Longrightarrow> held_set c' = Some a \<Longrightarrow>
   held_set c = Some a \<or> a \<in> ran (lp_followGraphCache m)"
  by (induction c m rule: continue_call.induct)
     (auto simp: computeTrust_flags_def Let_def ran_def split: option.splits)

lemma begin_held:
  "held_set (computeTrust_begin peer m) = Some a \<Longrightarrow> a \<in> ran (lp_followGraphCache m)"
  "held_set (initialize_begin m) = Some a \<Longrightarrow> a \<in> ran (lp_followGraphCache m)"
  by (auto simp: computeTrust_begin_def computeTrust_flags_def initialize_begin_def Let_def ran_def
      split: option.splits if_splits)


lemma trust_loop_const:
  "lp_myPubkey (trust_loop m ev) = lp_myPubkey m \<and> lp_config (trust_loop m ev) = lp_config m"
proof (cases ev)
  case (Invoke op)
  then show ?thesis by (cases op) simp_all
next
  case (Answer i f ans)
  obtain c' m' where a: "answer_call f ans (lp_calls m ! i) m = (c', m')"
    by (cases "answer_call f ans (lp_calls m ! i) m")
  show ?thesis using Answer a answer_call_fields[OF a] by auto
next
  case (Continue i)
  obtain c' m' where a: "continue_call (lp_calls m ! i) m = (c', m')"
    by (cases "continue_call (lp_calls m ! i) m")
  show ?thesis using Continue a continue_call_fields[OF a] by auto
qed

lemma trust_run_const:
  "lp_myPubkey (trust_run evs m) = lp_myPubkey m \<and> lp_config (trust_run evs m) = lp_config m"
  unfolding trust_run_def
  by (induction evs arbitrary: m) (simp_all add: trust_loop_const)


lemma answer_call_sets_length:
  "answer_call f ans c m = (c', m') \<Longrightarrow> length (lp_sets m) \<le> length (lp_sets m')"
  by (drule answer_call_sets) auto

lemma refs_ok_step:
  assumes ok: "refs_ok m"
  shows "refs_ok (trust_loop m ev)"
proof -
  have mf: "lp_myFollows m < length (lp_sets m)"
    and cr: "\<And>k a. lp_followGraphCache m k = Some a \<Longrightarrow> a < length (lp_sets m)"
    and cl: "\<And>c a. c \<in> set (lp_calls m) \<Longrightarrow> held_set c = Some a \<Longrightarrow> a < length (lp_sets m)"
    using ok by (auto simp: refs_ok_def ran_def split: option.splits)
  have crr: "\<And>a. a \<in> ran (lp_followGraphCache m) \<Longrightarrow> a < length (lp_sets m)"
    using cr by (auto simp: ran_def)
  show ?thesis
  proof (cases ev)
    case (Invoke op)
    show ?thesis
    proof (cases op)
      case (ComputeTrust peer)
      then show ?thesis using Invoke ok begin_held(1)[of peer m] crr
        by (auto simp: refs_ok_def split: option.splits)
    next
      case Initialize
      then show ?thesis using Invoke ok begin_held(2)[of m] crr
        by (auto simp: refs_ok_def split: option.splits)
    next
      case (Calculate pk isF)
      then show ?thesis using Invoke ok by simp
    next
      case ClearCache
      then show ?thesis using Invoke ok by (auto simp: refs_ok_def split: option.splits)
    qed
  next
    case (Answer i f ans)
    show ?thesis
    proof (cases "i < length (lp_calls m)")
      case False
      then show ?thesis using Answer ok by simp
    next
      case True
      obtain c' m' where a: "answer_call f ans (lp_calls m ! i) m = (c', m')"
        by (cases "answer_call f ans (lp_calls m ! i) m")
      have st: "trust_loop m ev = m'\<lparr>lp_calls := (lp_calls m)[i := c']\<rparr>"
        using Answer True a answer_call_fields[OF a] by simp
      have le: "length (lp_sets m) \<le> length (lp_sets m')" using answer_call_sets_length[OF a] .
      have f1: "lp_myFollows m' < length (lp_sets m')"
        using answer_call_fields[OF a] mf le by simp
      have f2: "a' < length (lp_sets m')" if "lp_followGraphCache m' k = Some a'" for k a'
        using answer_call_cache_ran[OF a that] cr[of k a'] le by auto
      have f3: "a' < length (lp_sets m')" if "held_set c' = Some a'" for a'
        using answer_call_held[OF a that] cl[of "lp_calls m ! i" a'] True le by auto
      have f4: "a' < length (lp_sets m')" if "c \<in> set (lp_calls m)" "held_set c = Some a'" for c a'
        using cl[OF that] le by simp
      have "\<forall>c\<in>set ((lp_calls m)[i := c']). case held_set c of None \<Rightarrow> True
              | Some a' \<Rightarrow> a' < length (lp_sets m')"
      proof
        fix c assume "c \<in> set ((lp_calls m)[i := c'])"
        then have "c = c' \<or> c \<in> set (lp_calls m)"
          using set_update_subset_insert[of "lp_calls m" i c'] by auto
        then show "case held_set c of None \<Rightarrow> True | Some a' \<Rightarrow> a' < length (lp_sets m')"
          using f3 f4 by (auto split: option.splits)
      qed
      then show ?thesis
        unfolding st refs_ok_def using f1 f2 by (auto simp: ran_def split: option.splits)
    qed
  next
    case (Continue i)
    show ?thesis
    proof (cases "i < length (lp_calls m)")
      case False
      then show ?thesis using Continue ok by simp
    next
      case True
      obtain c' m' where a: "continue_call (lp_calls m ! i) m = (c', m')"
        by (cases "continue_call (lp_calls m ! i) m")
      note fl = continue_call_fields[OF a]
      have st: "trust_loop m ev = m'\<lparr>lp_calls := (lp_calls m)[i := c']\<rparr>"
        using Continue True a fl by simp
      have in_i: "lp_calls m ! i \<in> set (lp_calls m)" using True by simp
      have f1: "lp_myFollows m' < length (lp_sets m')"
        using fl mf cl[OF in_i] by auto
      have f3: "a' < length (lp_sets m')" if "held_set c' = Some a'" for a'
        using continue_call_held[OF a that] cl[OF in_i] crr fl by auto
      have "\<forall>c\<in>set ((lp_calls m)[i := c']). case held_set c of None \<Rightarrow> True
              | Some a' \<Rightarrow> a' < length (lp_sets m')"
      proof
        fix c assume "c \<in> set ((lp_calls m)[i := c'])"
        then have "c = c' \<or> c \<in> set (lp_calls m)"
          using set_update_subset_insert[of "lp_calls m" i c'] by auto
        then show "case held_set c of None \<Rightarrow> True | Some a' \<Rightarrow> a' < length (lp_sets m')"
          using f3 cl fl by (auto split: option.splits)
      qed
      then show ?thesis
        unfolding st refs_ok_def using f1 crr fl by (auto simp: ran_def split: option.splits)
    qed
  qed
qed

lemma refs_ok_new: "refs_ok (new_TrustManagerLoop me cfg)"
  by (simp add: refs_ok_def new_TrustManagerLoop_def)

lemma refs_ok_run: "refs_ok m \<Longrightarrow> refs_ok (trust_run evs m)"
  unfolding trust_run_def by (induction evs arbitrary: m) (simp_all add: refs_ok_step)































lemma follows_filter_inj: "follows_filter a = follows_filter b \<longleftrightarrow> a = b"
  by (simp add: follows_filter_def)

lemma getFollows_atomic:
  "getFollows pool pk s =
     (case followGraphCache s pk of
        Some c \<Rightarrow> (Inr c, s)
      | None \<Rightarrow>
          (case pool (follows_filter pk) of
             Inl err \<Rightarrow> (Inl err, s)
           | Inr events \<Rightarrow>
               (Inr (follows_of events),
                s\<lparr>followGraphCache := (followGraphCache s)(pk \<mapsto> follows_of events)\<rparr>)))"
  by (auto simp: getFollows_def follows_of_def Let_def split: option.splits sum.splits list.splits)

lemma snapshot_simps:
  "myPubkey (snapshot m) = lp_myPubkey m"
  "config (snapshot m) = lp_config m"
  "myFollows (snapshot m) = lp_sets m ! lp_myFollows m"
  "myFollowers (snapshot m) = lp_myFollowers m"
  "followGraphCache (snapshot m) k = map_option (\<lambda>a. lp_sets m ! a) (lp_followGraphCache m k)"
  by (simp_all add: snapshot_def)

lemma snapshot_calls [simp]: "snapshot (m\<lparr>lp_calls := cs\<rparr>) = snapshot m"
  by (simp add: snapshot_def)

lemma snapshot_store:
  assumes "refs_ok m"
  shows "snapshot (snd (getFollows_store pk events m)) =
         (snapshot m)\<lparr>followGraphCache := (followGraphCache (snapshot m))(pk \<mapsto> follows_of events)\<rparr>"
proof -
  have mf: "lp_myFollows m < length (lp_sets m)" using assms by (simp add: refs_ok_def)
  have cr: "\<And>k a. lp_followGraphCache m k = Some a \<Longrightarrow> a < length (lp_sets m)"
    using assms by (auto simp: refs_ok_def ran_def)
  have "(\<lambda>k. map_option (\<lambda>a. (lp_sets m @ [follows_of events]) ! a)
               (((lp_followGraphCache m)(pk \<mapsto> length (lp_sets m))) k)) =
        (\<lambda>k. map_option (\<lambda>a. lp_sets m ! a) (lp_followGraphCache m k))(pk \<mapsto> follows_of events)"
  proof
    fix k
    show "map_option (\<lambda>a. (lp_sets m @ [follows_of events]) ! a)
               (((lp_followGraphCache m)(pk \<mapsto> length (lp_sets m))) k) =
        ((\<lambda>k. map_option (\<lambda>a. lp_sets m ! a) (lp_followGraphCache m k))(pk \<mapsto> follows_of events)) k"
      using cr[of k] by (cases "lp_followGraphCache m k") (auto simp: nth_append)
  qed
  then show ?thesis using mf by (simp add: snapshot_def getFollows_store_def nth_append)
qed

lemma snapshot_myFollows:
  "snapshot (m\<lparr>lp_myFollows := a\<rparr>) = (snapshot m)\<lparr>myFollows := lp_sets m ! a\<rparr>"
  by (simp add: snapshot_def)

lemma step_last:
  assumes "length (lp_calls m) = Suc n"
  shows "trust_loop m (Answer n f ans) =
           (snd (answer_call f ans (last (lp_calls m)) m))
             \<lparr>lp_calls := butlast (lp_calls m) @ [fst (answer_call f ans (last (lp_calls m)) m)]\<rparr>"
    and "trust_loop m (Continue n) =
           (snd (continue_call (last (lp_calls m)) m))
             \<lparr>lp_calls := butlast (lp_calls m) @ [fst (continue_call (last (lp_calls m)) m)]\<rparr>"
proof -
  obtain old c where oc: "lp_calls m = old @ [c]" "length old = n"
    using assms by (metis append_butlast_last_id length_0_conv length_butlast diff_Suc_1 nat.distinct(1))
  obtain c' m' where a: "answer_call f ans c m = (c', m')" by (cases "answer_call f ans c m")
  show "trust_loop m (Answer n f ans) =
           (snd (answer_call f ans (last (lp_calls m)) m))
             \<lparr>lp_calls := butlast (lp_calls m) @ [fst (answer_call f ans (last (lp_calls m)) m)]\<rparr>"
    using oc a answer_call_fields[OF a] by auto
  obtain c'' m'' where b: "continue_call c m = (c'', m'')" by (cases "continue_call c m")
  show "trust_loop m (Continue n) =
           (snd (continue_call (last (lp_calls m)) m))
             \<lparr>lp_calls := butlast (lp_calls m) @ [fst (continue_call (last (lp_calls m)) m)]\<rparr>"
    using oc b continue_call_fields[OF b] by auto
qed

text \<open>The second half of a call: from the flags to the end.\<close>

lemma peer_lookup_alone:
  assumes ok: "refs_ok m" and cs: "lp_calls m = old @ [computeTrust_flags peer m]"
  shows "let m' = trust_run [Answer (length old) (follows_filter peer) (pool (follows_filter peer)),
                             Continue (length old)] m;
             s = snapshot m;
             isF = (Some peer \<in> set (myFollows s));
             fU = (peer \<in> set (myFollowers s))
         in lp_calls m' =
              old @ [CT_returned peer
                (case getFollows pool peer s of
                   (Inl err, s2) \<Rightarrow> Inl err
                 | (Inr peerFollows, s2) \<Rightarrow>
                     (let mutual = countMutualFollowers s2 peerFollows;
                          cl = computeTrust_creditLimit (config s2) isF fU mutual
                      in case computeTrust_score (config s2) cl of
                           Inl err \<Rightarrow> Inl err
                         | Inr sc \<Rightarrow>
                             Inr \<lparr>ts_pubkey = peer, isFollowed = isF, followsUs = fU,
                                  mutualFollowers = mutual, creditLimit = cl, score = sc\<rparr>))] \<and>
            snapshot m' = snd (getFollows pool peer s)"
  supply trust_loop.simps [simp del]
proof (cases "lp_followGraphCache m peer")
  case (Some a)
  have fl: "computeTrust_flags peer m =
      CT_gotFollows peer (Some peer \<in> set (lp_sets m ! lp_myFollows m))
        (peer \<in> set (lp_myFollowers m)) a"
    using Some by (simp add: computeTrust_flags_def)
  have g: "getFollows pool peer (snapshot m) = (Inr (lp_sets m ! a), snapshot m)"
    using Some by (simp add: getFollows_atomic snapshot_simps)
  show ?thesis
    using cs
    by (simp add: trust_run_def step_last fl g Let_def computeTrust_end_def
        countMutualFollowers_def snapshot_simps split: sum.splits)
next
  case None
  have fl: "computeTrust_flags peer m =
      CT_getFollows peer (Some peer \<in> set (lp_sets m ! lp_myFollows m))
        (peer \<in> set (lp_myFollowers m))"
    using None by (simp add: computeTrust_flags_def)
  have mf: "lp_myFollows m < length (lp_sets m)" using ok by (simp add: refs_ok_def)
  show ?thesis
  proof (cases "pool (follows_filter peer)")
    case (Inl err)
    have g: "getFollows pool peer (snapshot m) = (Inl err, snapshot m)"
      using None Inl by (simp add: getFollows_atomic snapshot_simps)
    show ?thesis
      using cs
      by (simp add: trust_run_def step_last fl g Inl Let_def)
  next
    case (Inr events)
    let ?m1 = "snd (getFollows_store peer events m)"
    have g: "getFollows pool peer (snapshot m) =
        (Inr (follows_of events),
         (snapshot m)\<lparr>followGraphCache := (followGraphCache (snapshot m))(peer \<mapsto> follows_of events)\<rparr>)"
      using None Inr by (simp add: getFollows_atomic snapshot_simps)
    have s1: "trust_loop m (Answer (length old) (follows_filter peer) (pool (follows_filter peer))) =
        ?m1\<lparr>lp_calls := old @ [CT_gotFollows peer (Some peer \<in> set (lp_sets m ! lp_myFollows m))
          (peer \<in> set (lp_myFollowers m)) (length (lp_sets m))]\<rparr>"
      using cs by (simp add: step_last fl Inr getFollows_store_simps)
    let ?m2 = "?m1\<lparr>lp_calls := old @ [CT_gotFollows peer (Some peer \<in> set (lp_sets m ! lp_myFollows m))
          (peer \<in> set (lp_myFollowers m)) (length (lp_sets m))]\<rparr>"
    have cs2: "lp_calls ?m2 = old @ [CT_gotFollows peer (Some peer \<in> set (lp_sets m ! lp_myFollows m))
          (peer \<in> set (lp_myFollowers m)) (length (lp_sets m))]" by simp
    have e: "computeTrust_end peer isF fU (length (lp_sets m)) ?m2 =
       (let mutual = length (filter (\<lambda>p. p \<in> set (lp_sets m ! lp_myFollows m)) (follows_of events));
            cl = computeTrust_creditLimit (lp_config m) isF fU mutual
        in case computeTrust_score (lp_config m) cl of
             Inl err \<Rightarrow> Inl err
           | Inr sc \<Rightarrow>
               Inr \<lparr>ts_pubkey = peer, isFollowed = isF, followsUs = fU, mutualFollowers = mutual,
                    creditLimit = cl, score = sc\<rparr>)" for isF fU
      using mf by (simp add: computeTrust_end_def getFollows_store_simps nth_append)
    show ?thesis
      using snapshot_store[OF ok, of peer events]
      by (simp add: trust_run_def s1 step_last g e Let_def countMutualFollowers_def
          snapshot_simps getFollows_store_simps split: sum.splits)
  qed
qed


lemma clearCache_snapshot:
  assumes "refs_ok m"
  shows "snapshot (trust_loop m (Invoke ClearCache)) = clearCache (snapshot m)"
  using assms by (simp add: snapshot_def clearCache_def refs_ok_def)

lemma flags_calls [simp]: "computeTrust_flags peer (m\<lparr>lp_calls := cs\<rparr>) = computeTrust_flags peer m"
  by (simp add: computeTrust_flags_def)

lemma trust_run_append: "trust_run (xs @ ys) m = trust_run ys (trust_run xs m)"
  by (simp add: trust_run_def)

lemma trust_run_Cons: "trust_run (x # xs) m = trust_run xs (trust_loop m x)"
  by (simp add: trust_run_def)

lemma returned_stays:
  assumes "lp_calls m = old @ [CT_returned peer res]"
  shows "trust_run [Answer (length old) f ans, Continue (length old)] m = m"
  supply trust_loop.simps [simp del]
  using assms by (simp add: trust_run_def step_last)

text \<open>The first half of a call that finds \<open>myFollows\<close> empty: \<^verbatim>\<open>loadMyFollows\<close>.\<close>

lemma load_alone:
  assumes ok: "refs_ok m"
    and cs: "lp_calls m = old @ [case lp_followGraphCache m (lp_myPubkey m) of
                                    Some a \<Rightarrow> CT_loadMyFollows peer a
                                  | None \<Rightarrow> CT_getMyFollows peer]"
  shows "let me = lp_myPubkey m;
             m1 = trust_run [Answer (length old) (follows_filter me) (pool (follows_filter me)),
                             Continue (length old), Continue (length old)] m
         in case loadMyFollows pool (snapshot m) of
              (Inl err, s1) \<Rightarrow> lp_calls m1 = old @ [CT_returned peer (Inl err)] \<and> snapshot m1 = s1
            | (Inr u, s1) \<Rightarrow>
                lp_calls m1 = old @ [computeTrust_flags peer m1] \<and> snapshot m1 = s1 \<and> refs_ok m1"
  supply trust_loop.simps [simp del]
proof (cases "lp_followGraphCache m (lp_myPubkey m)")
  case (Some b)
  have bl: "b < length (lp_sets m)" using ok Some by (auto simp: refs_ok_def ran_def)
  have l: "loadMyFollows pool (snapshot m) = (Inr (), (snapshot m)\<lparr>myFollows := lp_sets m ! b\<rparr>)"
    using Some by (simp add: loadMyFollows_def getFollows_atomic snapshot_simps)
  have r: "refs_ok (m\<lparr>lp_myFollows := b, lp_calls := old @ [computeTrust_flags peer (m\<lparr>lp_myFollows := b\<rparr>)]\<rparr>)"
    using refs_ok_run[OF ok, of "[Answer (length old) (follows_filter (lp_myPubkey m))
        (pool (follows_filter (lp_myPubkey m))), Continue (length old), Continue (length old)]"]
      cs Some
    by (simp add: trust_run_def step_last)
  show ?thesis
    using cs Some r
    by (simp add: trust_run_def step_last l Let_def snapshot_myFollows)
next
  case None
  show ?thesis
  proof (cases "pool (follows_filter (lp_myPubkey m))")
    case (Inl err)
    have l: "loadMyFollows pool (snapshot m) = (Inl err, snapshot m)"
      using None Inl by (simp add: loadMyFollows_def getFollows_atomic snapshot_simps)
    show ?thesis using cs None Inl by (simp add: trust_run_def step_last l Let_def)
  next
    case (Inr events)
    let ?m1 = "snd (getFollows_store (lp_myPubkey m) events m)"
    have l: "loadMyFollows pool (snapshot m) =
        (Inr (), (snapshot m)\<lparr>followGraphCache :=
                    (followGraphCache (snapshot m))(lp_myPubkey m \<mapsto> follows_of events),
                  myFollows := follows_of events\<rparr>)"
      using None Inr by (simp add: loadMyFollows_def getFollows_atomic snapshot_simps)
    let ?run = "trust_run [Answer (length old) (follows_filter (lp_myPubkey m))
        (pool (follows_filter (lp_myPubkey m))), Continue (length old), Continue (length old)] m"
    have run: "?run = ?m1\<lparr>lp_myFollows := length (lp_sets m),
        lp_calls := old @ [computeTrust_flags peer (?m1\<lparr>lp_myFollows := length (lp_sets m)\<rparr>)]\<rparr>"
      using cs None Inr by (simp add: trust_run_def step_last getFollows_store_simps)
    have r: "refs_ok ?run" using refs_ok_run[OF ok] .
    have sn: "snapshot ?run = (snapshot m)\<lparr>followGraphCache :=
                    (followGraphCache (snapshot m))(lp_myPubkey m \<mapsto> follows_of events),
                  myFollows := follows_of events\<rparr>"
      unfolding run using snapshot_store[OF ok, of "lp_myPubkey m" events]
      by (simp add: snapshot_myFollows getFollows_store_simps)
    show ?thesis
      using r sn unfolding Let_def l
      by (simp add: run)
  qed
qed


lemma computeTrust_runs_alone:
  assumes ok: "refs_ok m"
  shows "lp_calls (trust_run (computeTrust_alone pool peer m) m) =
           lp_calls m @ [CT_returned peer (fst (computeTrust pool peer (snapshot m)))] \<and>
         snapshot (trust_run (computeTrust_alone pool peer m) m) =
           snd (computeTrust pool peer (snapshot m))"
  supply trust_loop.simps [simp del]
proof -
  let ?old = "lp_calls m" and ?n = "length (lp_calls m)" and ?me = "lp_myPubkey m"
  let ?m0 = "m\<lparr>lp_calls := lp_calls m @ [computeTrust_begin peer m]\<rparr>"
  let ?tail = "[Answer ?n (follows_filter peer) (pool (follows_filter peer)), Continue ?n]"
  have m0: "trust_loop m (Invoke (ComputeTrust peer)) = ?m0" by (simp add: trust_loop.simps)
  have ok0: "refs_ok ?m0" using refs_ok_step[OF ok, of "Invoke (ComputeTrust peer)"] m0 by simp
  have sn0: "snapshot ?m0 = snapshot m" by simp
  show ?thesis
  proof (cases "lp_sets m ! lp_myFollows m = []")
    case False
    have sched: "computeTrust_alone pool peer m = Invoke (ComputeTrust peer) # ?tail"
      using False by (simp add: computeTrust_alone_def Let_def)
    have cs: "lp_calls ?m0 = ?old @ [computeTrust_flags peer ?m0]"
      using False by (simp add: computeTrust_begin_def)
    have nl: "myFollows (snapshot m) \<noteq> []" using False by (simp add: snapshot_simps)
    have run: "trust_run (computeTrust_alone pool peer m) m = trust_run ?tail ?m0"
      unfolding sched by (simp add: trust_run_def m0)
    show ?thesis
      unfolding run
      using peer_lookup_alone[OF ok0 cs, of pool] nl
      by (simp add: sn0 computeTrust_def Let_def split: prod.splits sum.splits)
  next
    case True
    let ?load = "[Answer ?n (follows_filter ?me) (pool (follows_filter ?me)), Continue ?n, Continue ?n]"
    have sched: "computeTrust_alone pool peer m = Invoke (ComputeTrust peer) # ?load @ ?tail"
      using True by (simp add: computeTrust_alone_def Let_def)
    have cs: "lp_calls ?m0 = ?old @ [case lp_followGraphCache ?m0 (lp_myPubkey ?m0) of
                                    Some a \<Rightarrow> CT_loadMyFollows peer a
                                  | None \<Rightarrow> CT_getMyFollows peer]"
      using True by (simp add: computeTrust_begin_def)
    have el: "myFollows (snapshot m) = []" using True by (simp add: snapshot_simps)
    let ?m1 = "trust_run ?load ?m0"
    have run: "trust_run (computeTrust_alone pool peer m) m = trust_run ?tail ?m1"
      unfolding sched by (simp add: trust_run_def m0)
    note la = load_alone[OF ok0 cs, of pool, unfolded Let_def sn0]
    show ?thesis
    proof (cases "loadMyFollows pool (snapshot m)")
      case (Pair r s1)
      show ?thesis
      proof (cases r)
        case (Inl err)
        have c1: "lp_calls ?m1 = ?old @ [CT_returned peer (Inl err)]" and s1: "snapshot ?m1 = s1"
          using la Pair Inl by simp_all
        have "trust_run ?tail ?m1 = ?m1" using returned_stays[OF c1] .
        then show ?thesis
          unfolding run
          using c1 s1 Pair Inl el by (simp add: computeTrust_def)
      next
        case (Inr u)
        have c1: "lp_calls ?m1 = ?old @ [computeTrust_flags peer ?m1]" and s1: "snapshot ?m1 = s1"
          and ok1: "refs_ok ?m1"
          using la Pair Inr by simp_all
        show ?thesis
          unfolding run
          using peer_lookup_alone[OF ok1 c1, of pool] Pair Inr el
          by (simp add: s1 computeTrust_def Let_def split: prod.splits sum.splits)
      qed
    qed
  qed
qed

text \<open>
  X2. In every state the trust manager can reach, a call of \<^verbatim>\<open>computeTrust\<close> that runs
  alone through the event loop returns what the function \<open>computeTrust\<close> returns on the
  manager as it is when the call starts, and leaves the manager as that function leaves
  it.
\<close>

theorem computeTrust_alone_is_computeTrust:
  assumes "m = trust_run pre (new_TrustManagerLoop me cfg)"
  shows "lp_calls (trust_run (computeTrust_alone pool peer m) m) =
           lp_calls m @ [CT_returned peer (fst (computeTrust pool peer (snapshot m)))] \<and>
         snapshot (trust_run (computeTrust_alone pool peer m) m) =
           snd (computeTrust pool peer (snapshot m))"
proof -
  have "refs_ok m" unfolding assms by (rule refs_ok_run[OF refs_ok_new])
  then show ?thesis by (rule computeTrust_runs_alone)
qed

theorem computeTrust_alone_is_computeTrust_witness:
  "lp_calls (trust_run (computeTrust_alone ex_pool ''bob'' (trust_run ex_initialized ex_manager))
      (trust_run ex_initialized ex_manager)) =
     [Init LF_done LR_done (Some (Inr ())), CT_returned ''bob'' (ex_bob_score 1500 False 10)]"
proof -
  let ?M = "trust_run ex_initialized ex_manager"
  have r: "?M = trust_run ex_initialized (new_TrustManagerLoop ''me'' DEFAULT_CONFIG)"
    by (simp add: ex_manager_def)
  have a: "lp_calls ?M = [Init LF_done LR_done (Some (Inr ()))]" by code_simp
  have b: "fst (computeTrust ex_pool ''bob'' (snapshot ?M)) = ex_bob_score 1500 False 10"
    by code_simp
  show ?thesis
    using computeTrust_alone_is_computeTrust[OF r, of ex_pool "''bob''", THEN conjunct1] a b
    by simp
qed

text \<open>
  Both queries of \<^verbatim>\<open>initialize\<close> are rejected, the one of \<^verbatim>\<open>getFollows\<close> first:
  \<^verbatim>\<open>loadMyFollowers\<close> throws while \<^verbatim>\<open>loadMyFollows\<close> is still suspended at its \<^verbatim>\<open>await\<close>,
  so \<^verbatim>\<open>initialize\<close> rejects with the error of the follower query.
\<close>

lemma initialize_rejects_with_first_thrown:
  "lp_calls (trust_run
      [Invoke Initialize,
       Answer 0 (follows_filter ''me'') (Inl (Thrown ''follows'')),
       Answer 0 (followers_filter ''me'') (Inl (Thrown ''followers'')),
       Continue 0] ex_manager) =
   [Init (LF_failed (Thrown ''follows'')) (LR_failed (Thrown ''followers''))
      (Some (Inl (Thrown ''followers'')))]"
  by code_simp






end
